theory Spec2Isabelle
  imports Complex_Main "HOL-Library.Sublist"
begin

section \<open>Numeric post-processing of the RFSoC4x2 spectrum notebooks\<close>

text \<open>
  The two notebooks under \<^verbatim>\<open>boards/RFSoC4x2/base/notebooks/rfdc\<close> compute on numpy
  arrays of Python floats and complex numbers. Arrays are lists here; a finite float is a
  \<^typ>\<open>real\<close> and a finite complex value a \<^typ>\<open>complex\<close>, so rounding, overflow and
  underflow of IEEE arithmetic are outside this development. The places where the code can
  raise, or where numpy produces an infinity or a NaN out of finite values, are written out.
\<close>

subsection \<open>Exceptions\<close>

text \<open>
  The exceptions that numpy and Python raise in the code below, and the exceptions of the
  board support package, which the notebooks do not look into: \<open>External n\<close> is one
  of them, told from the others by \<open>n\<close>.
\<close>

datatype exn =
    ValueError
  | IndexError
  | ZeroDivisionError
  | External nat

subsection \<open>Notebook 02: the centring reorder\<close>

text \<open>
  \<^verbatim>\<open>np.fft.fftshift(x)\<close> on a one-dimensional array of length \<open>n\<close> is
  \<^verbatim>\<open>np.roll(x, n // 2)\<close>: the last \<open>n // 2\<close> items move to the front.
\<close>

definition np_roll :: "'a list \<Rightarrow> nat \<Rightarrow> 'a list" where
  "np_roll x shift =
     (if x = [] then []
      else drop (length x - shift mod length x) x @ take (length x - shift mod length x) x)"

definition fftshift :: "'a list \<Rightarrow> 'a list" where
  "fftshift x = np_roll x (length x div 2)"

subsection \<open>Notebook 02: windowing\<close>

text \<open>
  \<^verbatim>\<open>wdata.append(cdata[i]*window)\<close>: the product of two one-dimensional numpy arrays.
  numpy broadcasts: arrays of equal length are multiplied item by item, an array of length
  one is stretched to the length of the other, and any other pair of lengths raises
  ValueError (operands could not be broadcast together).
\<close>

definition window_multiply :: "complex list \<Rightarrow> real list \<Rightarrow> exn + complex list" where
  "window_multiply cdata window =
     (if length cdata = length window
        then Inr (map (\<lambda>(c, w). c * complex_of_real w) (zip cdata window))
      else if length window = 1
        then Inr (map (\<lambda>c. c * complex_of_real (hd window)) cdata)
      else if length cdata = 1
        then Inr (map (\<lambda>w. hd cdata * complex_of_real w) window)
      else Inl ValueError)"

subsection \<open>Notebook 02: the spectral transform\<close>

text \<open>
  \<^verbatim>\<open>np.fft.fft\<close> is numpy's; its documented result with the default normalisation is
  the sum \<open>A[k] = \<Sum>m. a[m] * exp(-2 \<pi> i m k / n)\<close> with no factor in front, and it
  raises ValueError on an array with no points.
\<close>

definition fft :: "complex list \<Rightarrow> exn + complex list" where
  "fft a =
     (if a = [] then Inl ValueError
      else Inr (map (\<lambda>k. \<Sum>m < length a.
                   a ! m * cis (- (2 * pi * real m * real k / real (length a))))
                 [0 ..< length a]))"

text \<open>\<^verbatim>\<open>fdata.append(np.fft.fftshift(np.fft.fft(wdata[i])))\<close>\<close>

definition spectral_transform :: "complex list \<Rightarrow> exn + complex list" where
  "spectral_transform wdata =
     (case fft wdata of Inl e \<Rightarrow> Inl e | Inr spectrum \<Rightarrow> Inr (fftshift spectrum))"

subsection \<open>Notebook 02: power spectral density\<close>

text \<open>
  A float64 that numpy computes from finite values: a finite value, an infinity or a NaN.
  Division by zero gives an infinity or a NaN with a warning, never an exception.
\<close>

datatype npfloat = Finite real | PosInf | NegInf | NaN

text \<open>
  \<^verbatim>\<open>numerator / (fs * energy)\<close> for a numerator that is not negative. A zero product carries
  the sign of its factors (\<open>-1.0 * 0.0\<close> is \<open>-0.0\<close>), and that sign is the sign of the
  infinity.
\<close>

definition np_true_divide :: "real \<Rightarrow> real \<Rightarrow> real \<Rightarrow> npfloat" where
  "np_true_divide numerator fs energy =
     (if fs * energy \<noteq> 0 then Finite (numerator / (fs * energy))
      else if numerator = 0 then NaN
      else if (fs < 0) \<noteq> (energy < 0) then NegInf
      else PosInf)"

text \<open>\<^verbatim>\<open>np.where(psd > 0, np.log10(psd), 0)\<close>, one item.\<close>

definition where_positive_log10 :: "npfloat \<Rightarrow> npfloat" where
  "where_positive_log10 psd =
     (case psd of
        Finite r \<Rightarrow> if r > 0 then Finite (log 10 r) else Finite 0
      | PosInf \<Rightarrow> PosInf
      | NegInf \<Rightarrow> Finite 0
      | NaN \<Rightarrow> Finite 0)"

definition times_ten :: "npfloat \<Rightarrow> npfloat" where
  "times_ten x = (case x of Finite r \<Rightarrow> Finite (10 * r) | PosInf \<Rightarrow> PosInf
                  | NegInf \<Rightarrow> NegInf | NaN \<Rightarrow> NaN)"

definition np_sum :: "real list \<Rightarrow> real" where
  "np_sum xs = sum_list xs"

text \<open>
  \<^verbatim>\<open>def freq_to_psd(data, N, fs, window)\<close>:
  \<^verbatim>\<open>psd = (abs(data)**2)/(fs*np.sum(window**2))\<close>,
  \<^verbatim>\<open>return 10*np.where(psd > 0, np.log10(psd), 0)\<close>.
\<close>

definition freq_to_psd :: "complex list \<Rightarrow> int \<Rightarrow> real \<Rightarrow> real list \<Rightarrow> npfloat list" where
  "freq_to_psd data N fs window =
     map (\<lambda>z. times_ten (where_positive_log10
                 (np_true_divide ((cmod z) ^ 2) fs (np_sum (map (\<lambda>w. w ^ 2) window)))))
         data"

subsection \<open>Notebook 03: the measurements\<close>

text \<open>
  \<^verbatim>\<open>np.max\<close> raises ValueError on an empty array. \<^verbatim>\<open>np.average\<close> is the sum over the
  number of items; the estimator below reaches it only after \<^verbatim>\<open>np.max\<close> has returned,
  on an array that is not empty.
\<close>

definition np_max :: "real list \<Rightarrow> exn + real" where
  "np_max xs = (if xs = [] then Inl ValueError else Inr (Max (set xs)))"

definition np_average :: "real list \<Rightarrow> real" where
  "np_average xs = sum_list xs / real (length xs)"

text \<open>\<^verbatim>\<open>return np.max(spectrum) - np.average(spectrum)\<close>\<close>

definition calculate_simple_snr :: "real list \<Rightarrow> exn + real" where
  "calculate_simple_snr spectrum =
     (case np_max spectrum of
        Inl e \<Rightarrow> Inl e
      | Inr m \<Rightarrow> Inr (m - np_average spectrum))"

text \<open>
  \<^verbatim>\<open>np.argsort\<close> is numpy's, called with its default kind of sort, which is not stable:
  numpy documents that the result holds the indices that sort the array in ascending
  order, and leaves the order among equal values open. So the sort is a parameter of what
  follows, and all that is known of it is this contract: for every array, the result
  holds every index once and the values at these indices ascend.
\<close>

definition argsort_contract :: "(real list \<Rightarrow> nat list) \<Rightarrow> bool" where
  "argsort_contract argsort \<longleftrightarrow>
     (\<forall>xs. distinct (argsort xs) \<and> set (argsort xs) = {0 ..< length xs}
           \<and> sorted (map (\<lambda>i. xs ! i) (argsort xs)))"

text \<open>
  Two sorts that meet the contract: one keeps equal values in index order, the other puts
  them in reverse index order. numpy's own sort agrees with neither on every array.
\<close>

definition stable_argsort :: "real list \<Rightarrow> nat list" where
  "stable_argsort xs = sort_key (\<lambda>i. xs ! i) [0 ..< length xs]"

definition reversing_argsort :: "real list \<Rightarrow> nat list" where
  "reversing_argsort xs = rev (sort_key (\<lambda>i. - (xs ! i)) [0 ..< length xs])"

text \<open>\<^verbatim>\<open>a[-1:]\<close> and \<^verbatim>\<open>a[0]\<close>\<close>

definition last_slice :: "'a list \<Rightarrow> 'a list" where
  "last_slice a = drop (length a - 1) a"

definition item0 :: "'a list \<Rightarrow> exn + 'a" where
  "item0 a = (case a of [] \<Rightarrow> Inl IndexError | x # _ \<Rightarrow> Inr x)"

text \<open>
  \<^verbatim>\<open>def calculate_fundamental(spectrum, sample_frequency, number_samples, receive_frequency)\<close>.
  The sample frequency is a Python float and the number of samples a Python int, so the
  first line raises ZeroDivisionError when the number of samples is zero. The first
  argument is the sort behind \<^verbatim>\<open>np.argsort\<close>.
\<close>

definition calculate_fundamental ::
  "(real list \<Rightarrow> nat list) \<Rightarrow> real list \<Rightarrow> real \<Rightarrow> int \<Rightarrow> real \<Rightarrow> exn + real" where
  "calculate_fundamental argsort spectrum sample_frequency number_samples receive_frequency =
     (if number_samples = 0 then Inl ZeroDivisionError
      else
        let rbw = sample_frequency / real_of_int number_samples in
        case item0 (last_slice (argsort spectrum)) of
          Inl e \<Rightarrow> Inl e
        | Inr maxindex \<Rightarrow>
            Inr (real maxindex * rbw + receive_frequency - sample_frequency / 2))"

text \<open>
  The peak index as the specification words it (the first occurrence of the maximum, as
  \<^verbatim>\<open>np.argmax\<close> gives it): the number of bins in front of the first bin that holds the
  maximum. It is here to be compared with what \<^const>\<open>calculate_fundamental\<close> computes.
\<close>

definition spec_first_peak_index :: "real list \<Rightarrow> nat" where
  "spec_first_peak_index spectrum =
     length (takeWhile (\<lambda>x. x \<noteq> Max (set spectrum)) spectrum)"

subsection \<open>Notebook 03: the collaborators of the sweep\<close>

text \<open>
  The tone generators and the spectrum analysers belong to the board support package, not
  to the notebook. The sweep reaches them through attribute writes, \<^verbatim>\<open>update_spectrum()\<close>
  and \<^verbatim>\<open>get_spectrum()\<close>, and it sleeps; a generator or an analyser is named by its
  position in the hardware. Every one of these calls may raise.
\<close>

datatype call =
    SetGeneratorEnable nat bool
  | SetGeneratorGain nat real
  | SetGeneratorCentre nat real
  | Sleep real
  | SetAnalyserCentre nat real
  | SetPlotCentre nat real
  | UpdateSpectrum nat

text \<open>
  A piece of notebook code as the sequence of calls it makes: it returns, it raises, it
  makes a call and goes on, or it reads a spectrum and goes on with it. The notebook has
  no \<^verbatim>\<open>try\<close>, so there is no construct that catches.
\<close>

datatype 'a prog =
    Return 'a
  | Raise exn
  | Perform call "'a prog"
  | GetSpectrum nat "real list \<Rightarrow> 'a prog"

primrec then_do :: "'a prog \<Rightarrow> ('a \<Rightarrow> 'b prog) \<Rightarrow> 'b prog" where
  "then_do (Return x) k = k x"
| "then_do (Raise e) k = Raise e"
| "then_do (Perform c p) k = Perform c (then_do p k)"
| "then_do (GetSpectrum a f) k = GetSpectrum a (\<lambda>s. then_do (f s) k)"

definition lift :: "exn + 'a \<Rightarrow> 'a prog" where
  "lift r = (case r of Inl e \<Rightarrow> Raise e | Inr x \<Rightarrow> Return x)"

text \<open>
  The hardware behind the calls: a state of any type, and for each call either an
  exception or the next state (and the spectrum, for \<^verbatim>\<open>get_spectrum()\<close>).
\<close>

record 'w hardware =
  perform :: "call \<Rightarrow> 'w \<Rightarrow> exn + 'w"
  get_spectrum :: "nat \<Rightarrow> 'w \<Rightarrow> exn + real list \<times> 'w"

primrec exec :: "'w hardware \<Rightarrow> 'a prog \<Rightarrow> 'w \<Rightarrow> exn + 'a \<times> 'w" where
  "exec hw (Return x) w = Inr (x, w)"
| "exec hw (Raise e) w = Inl e"
| "exec hw (Perform c p) w =
     (case perform hw c w of Inl e \<Rightarrow> Inl e | Inr w' \<Rightarrow> exec hw p w')"
| "exec hw (GetSpectrum a k) w =
     (case get_spectrum hw a w of Inl e \<Rightarrow> Inl e | Inr (s, w') \<Rightarrow> exec hw (k s) w')"

text \<open>
  What a run does to the collaborators, in order: the calls it attempts (the one that
  raises among them) and the spectra it reads. From these events,
  \<open>spectra_read\<close> keeps every spectrum read with the analyser it was read from,
  \<open>captures\<close> keeps the \<^verbatim>\<open>update_spectrum()\<close> calls and the reads, and
  \<open>analyser_centres\<close> keeps the centre frequencies written to the analysers.
\<close>

datatype event = Called call | Asked nat | Got nat "real list"

primrec calls :: "'w hardware \<Rightarrow> 'a prog \<Rightarrow> 'w \<Rightarrow> event list" where
  "calls hw (Return x) w = []"
| "calls hw (Raise e) w = []"
| "calls hw (Perform c p) w =
     Called c # (case perform hw c w of Inl e \<Rightarrow> [] | Inr w' \<Rightarrow> calls hw p w')"
| "calls hw (GetSpectrum a k) w =
     (case get_spectrum hw a w of
        Inl e \<Rightarrow> [Asked a]
      | Inr (s, w') \<Rightarrow> Got a s # calls hw (k s) w')"

fun spectra_read :: "event list \<Rightarrow> (nat \<times> real list) list" where
  "spectra_read [] = []"
| "spectra_read (Got a s # evs) = (a, s) # spectra_read evs"
| "spectra_read (ev # evs) = spectra_read evs"

fun captures :: "event list \<Rightarrow> event list" where
  "captures [] = []"
| "captures (Called (UpdateSpectrum a) # evs) = Called (UpdateSpectrum a) # captures evs"
| "captures (Got a s # evs) = Got a s # captures evs"
| "captures (ev # evs) = captures evs"

fun analyser_centres :: "event list \<Rightarrow> (nat \<times> real) list" where
  "analyser_centres [] = []"
| "analyser_centres (Called (SetAnalyserCentre a f) # evs) = (a, f) # analyser_centres evs"
| "analyser_centres (ev # evs) = analyser_centres evs"

text \<open>
  A collaborator call raises \<open>e\<close> in a run, after \<open>n\<close> calls that did not raise.
\<close>

inductive raises_after :: "'w hardware \<Rightarrow> 'a prog \<Rightarrow> 'w \<Rightarrow> nat \<Rightarrow> exn \<Rightarrow> bool"
  for hw :: "'w hardware" where
  perform_raises: "perform hw c w = Inl e \<Longrightarrow> raises_after hw (Perform c p) w 0 e"
| perform_later: "perform hw c w = Inr w' \<Longrightarrow> raises_after hw p w' n e
                  \<Longrightarrow> raises_after hw (Perform c p) w (Suc n) e"
| get_raises: "get_spectrum hw a w = Inl e \<Longrightarrow> raises_after hw (GetSpectrum a k) w 0 e"
| get_later: "get_spectrum hw a w = Inr (s, w') \<Longrightarrow> raises_after hw (k s) w' n e
              \<Longrightarrow> raises_after hw (GetSpectrum a k) w (Suc n) e"

subsection \<open>Notebook 03: the sweep\<close>

text \<open>
  The notebook's global names that \<^verbatim>\<open>run_spectrum_sweep\<close> reads: the lists of
  generators and analysers, the two settings, and, through the module \<^verbatim>\<open>np\<close>, the
  sort behind \<^verbatim>\<open>np.argsort\<close>.
\<close>

record notebook =
  generators :: "nat list"
  analysers :: "nat list"
  sample_frequency :: real
  number_samples :: int
  np_argsort :: "real list \<Rightarrow> nat list"

definition frequency_zones :: "real list" where
  "frequency_zones = [12288 / 10, 36864 / 10]"

text \<open>\<^verbatim>\<open>for generator in generators: ...\<close>\<close>

fun configure_generators :: "nat list \<Rightarrow> real \<Rightarrow> real \<Rightarrow> unit prog" where
  "configure_generators [] amplitude frequency = Return ()"
| "configure_generators (generator # rest) amplitude frequency =
     Perform (SetGeneratorEnable generator True)
    (Perform (SetGeneratorGain generator amplitude)
    (Perform (SetGeneratorCentre generator frequency)
    (configure_generators rest amplitude frequency)))"

text \<open>
  \<^verbatim>\<open>for analyser in analysers: ...\<close>, with the lists \<^verbatim>\<open>fundamental\<close> and \<^verbatim>\<open>snr\<close> that
  the loop appends to. \<^verbatim>\<open>maxvalue\<close> and \<^verbatim>\<open>maxindex\<close> are computed and not used.
\<close>

fun measure_analysers ::
  "notebook \<Rightarrow> real \<Rightarrow> nat list \<Rightarrow> real list \<times> real list \<Rightarrow> (real list \<times> real list) prog" where
  "measure_analysers nb frequency [] acc = Return acc"
| "measure_analysers nb frequency (analyser # rest) (fundamental, snr) =
     (let receive_frequency =
            (if frequency * 1000000 < sample_frequency nb
             then frequency_zones ! 0 else frequency_zones ! 1)
      in Perform (SetAnalyserCentre analyser receive_frequency)
        (Perform (SetPlotCentre analyser (receive_frequency * 1000000))
        (Perform (UpdateSpectrum analyser)
        (GetSpectrum analyser (\<lambda>spectrum.
           then_do (lift (np_max spectrum)) (\<lambda>maxvalue.
           then_do (lift (item0 (last_slice (np_argsort nb spectrum)))) (\<lambda>maxindex.
           then_do (lift (calculate_fundamental (np_argsort nb) spectrum (sample_frequency nb)
                            (number_samples nb) (receive_frequency * 1000000))) (\<lambda>f.
           then_do (lift (calculate_simple_snr spectrum)) (\<lambda>s.
             measure_analysers nb frequency rest
               (fundamental @ [f * (1 / 1000000)], snr @ [s]))))))))))"

text \<open>\<^verbatim>\<open>for frequency in frequencies: ...\<close>\<close>

fun sweep_frequencies ::
  "notebook \<Rightarrow> real \<Rightarrow> real list \<Rightarrow> real list \<times> real list \<Rightarrow> (real list \<times> real list) prog" where
  "sweep_frequencies nb amplitude [] acc = Return acc"
| "sweep_frequencies nb amplitude (frequency # rest) acc =
     then_do (configure_generators (generators nb) amplitude frequency) (\<lambda>_.
     Perform (Sleep 1)
     (then_do (measure_analysers nb frequency (analysers nb) acc) (\<lambda>acc'.
      sweep_frequencies nb amplitude rest acc')))"

text \<open>
  \<^verbatim>\<open>a[i::n]\<close> for a step \<open>n\<close> of at least one: the items at \<open>i\<close>, \<open>i + n\<close>,
  \<open>i + 2n\<close>, ... The sweep slices inside \<^verbatim>\<open>for i in range(0, len(analysers))\<close>, so
  with no analyser it does not slice at all.
\<close>

definition step_slice :: "'a list \<Rightarrow> nat \<Rightarrow> nat \<Rightarrow> 'a list" where
  "step_slice a i n = map (\<lambda>j. a ! (i + j * n)) [0 ..< (length a - i + n - 1) div n]"

text \<open>
  \<^verbatim>\<open>results.append(np.array([frequencies, fundamental[i::len(analysers)],
  snr[i::len(analysers)]]))\<close> for every \<open>i\<close>: a table is the list of its three rows.
\<close>

definition result_tables ::
  "notebook \<Rightarrow> real list \<Rightarrow> real list \<times> real list \<Rightarrow> real list list list" where
  "result_tables nb frequencies acc =
     (case acc of (fundamental, snr) \<Rightarrow>
        map (\<lambda>i. [frequencies,
                   step_slice fundamental i (length (analysers nb)),
                   step_slice snr i (length (analysers nb))])
            [0 ..< length (analysers nb)])"

definition run_spectrum_sweep :: "notebook \<Rightarrow> real list \<Rightarrow> real \<Rightarrow> real list list list prog" where
  "run_spectrum_sweep nb frequencies amplitude =
     then_do (sweep_frequencies nb amplitude frequencies ([], []))
       (\<lambda>acc. Return (result_tables nb frequencies acc))"

text \<open>
  The rule for the receive centre frequency as the specification words it: the low zone
  constant (1228.8 MHz) when the frequency, in Hz, is below the sample frequency, and the
  high zone constant (3686.4 MHz) otherwise. It is here to be compared with what the
  sweep writes to the analysers.
\<close>

definition spec_receive_centre :: "real \<Rightarrow> real \<Rightarrow> real" where
  "spec_receive_centre fs frequency = (if frequency * 1000000 < fs then 12288 / 10 else 36864 / 10)"

text \<open>
  What the loop body appends for one spectrum, as a pair: the fundamental in MHz,
  \<^verbatim>\<open>calculate_fundamental(spectrum, sample_frequency, number_samples,
  receive_frequency*1e6)*1e-6\<close>, and \<^verbatim>\<open>calculate_simple_snr(spectrum)\<close>.
\<close>

definition measurement ::
  "(real list \<Rightarrow> nat list) \<Rightarrow> real \<Rightarrow> int \<Rightarrow> real \<Rightarrow> real list \<Rightarrow> exn + real \<times> real" where
  "measurement argsort fs N receive_frequency spectrum =
     (case calculate_fundamental argsort spectrum fs N (receive_frequency * 1000000) of
        Inl e \<Rightarrow> Inl e
      | Inr x \<Rightarrow>
          (case calculate_simple_snr spectrum of
             Inl e \<Rightarrow> Inl e
           | Inr s \<Rightarrow> Inr (x * (1 / 1000000), s)))"

text \<open>
  The pair \<open>(f, s)\<close> is what the sweep of notebook \<open>nb\<close> appends for a spectrum read at
  the given transmit frequency.
\<close>

definition measured :: "notebook \<Rightarrow> real \<Rightarrow> real list \<Rightarrow> real \<Rightarrow> real \<Rightarrow> bool" where
  "measured nb frequency spectrum f s \<longleftrightarrow>
     measurement (np_argsort nb) (sample_frequency nb) (number_samples nb)
       (spec_receive_centre (sample_frequency nb) frequency) spectrum = Inr (f, s)"

text \<open>
  Hardware on which no call raises and every spectrum has at least one bin.
\<close>

definition never_raises :: "'w hardware \<Rightarrow> bool" where
  "never_raises hw \<longleftrightarrow>
     (\<forall>c w. \<exists>w'. perform hw c w = Inr w')
     \<and> (\<forall>a w. \<exists>s w'. get_spectrum hw a w = Inr (s, w') \<and> s \<noteq> [])"

subsection \<open>Notebook 03: a simulated loopback and a test bench\<close>

text \<open>
  The notebook's own configuration: two generators, the analysers of the receive channels
  2 and 3, 2457.6 MHz and 12288 samples; the sort is one that meets the contract.
\<close>

definition notebook03 :: notebook where
  "notebook03 = \<lparr>generators = [0, 1], analysers = [2, 3],
                  sample_frequency = 2457600000, number_samples = 12288,
                  np_argsort = stable_argsort\<rparr>"

text \<open>
  A loopback for tones in the first Nyquist zone. Its state is the centre frequency last
  written to a generator, in MHz. The spectrum that analyser \<open>a\<close> returns is flat at the
  floor \<open>a\<close>, a different floor for every analyser, with one spike in the bin of that
  frequency (the bins are 0.2 MHz wide), high enough for the peak to be 90 above the mean
  of the 12288 bins.
\<close>

definition loopback_spectrum :: "nat \<Rightarrow> nat \<Rightarrow> real list" where
  "loopback_spectrum a k =
     replicate k (real a) @ (real a + 90 * 12288 / 12287) # replicate (12287 - k) (real a)"

definition loopback :: "real hardware" where
  "loopback =
     \<lparr>perform = (\<lambda>c w. case c of SetGeneratorCentre g f \<Rightarrow> Inr f | _ \<Rightarrow> Inr w),
      get_spectrum = (\<lambda>a w. Inr (loopback_spectrum a (nat \<lfloor>w * 5\<rfloor>), w))\<rparr>"

text \<open>
  Two benches with four samples: one generator and one analyser, and one generator and
  two analysers. Their hardware returns the spectrum \<open>[1, 3, 2]\<close> from analyser 0 and
  \<open>[1, 1, 4, 1]\<close> from every other analyser, and its \<^verbatim>\<open>update_spectrum()\<close> raises once
  \<open>limit\<close> updates have been done; the state is the number of updates done.
\<close>

definition bench :: notebook where
  "bench = \<lparr>generators = [0], analysers = [0], sample_frequency = 2457600000,
             number_samples = 4, np_argsort = stable_argsort\<rparr>"

definition bench2 :: notebook where
  "bench2 = \<lparr>generators = [0], analysers = [0, 1], sample_frequency = 2457600000,
              number_samples = 4, np_argsort = stable_argsort\<rparr>"

definition bench_hardware :: "nat \<Rightarrow> nat hardware" where
  "bench_hardware limit =
     \<lparr>perform = (\<lambda>c w. case c of
                    UpdateSpectrum a \<Rightarrow> if w = limit then Inl (External 7) else Inr (Suc w)
                  | _ \<Rightarrow> Inr w),
      get_spectrum = (\<lambda>a w. Inr (if a = 0 then [1, 3, 2] else [1, 1, 4, 1], w))\<rparr>"

subsection \<open>What a bin of a spectrum stands for\<close>

text \<open>
  A bin of a spectrum corresponds to a frequency \<open>f\<close>, at the sample frequency \<open>fs\<close>,
  when it holds the correlation of the vector with the complex tone of that frequency:
  the sum \<open>\<Sum>m. a[m] * exp(-2 \<pi> i (f / fs) m)\<close>, with no factor in front. The argument
  \<open>\<nu>\<close> below is the frequency in cycles per sample, \<open>f / fs\<close>.
\<close>

definition dtft :: "complex list \<Rightarrow> real \<Rightarrow> complex" where
  "dtft a \<nu> = (\<Sum>m < length a. a ! m * cis (- (2 * pi * \<nu> * real m)))"

text \<open>
  The bin frequencies as the specification words them, \<open>-fs/2 + i * (fs/N)\<close>, and the
  spectrum that holds in each bin the transform at that frequency. They are here to be
  compared with what \<^const>\<open>spectral_transform\<close> computes.
\<close>

definition spec_bin_frequency :: "real \<Rightarrow> nat \<Rightarrow> nat \<Rightarrow> real" where
  "spec_bin_frequency fs N i = - fs / 2 + real i * (fs / real N)"

definition spec_centred_spectrum :: "complex list \<Rightarrow> real \<Rightarrow> complex list" where
  "spec_centred_spectrum y fs =
     map (\<lambda>i. dtft y (spec_bin_frequency fs (length y) i / fs)) [0 ..< length y]"

section \<open>Properties\<close>

subsection \<open>The centring reorder\<close>

lemma fftshift_length: "length (fftshift x) = length x"
  by (auto simp: fftshift_def np_roll_def)

lemma fftshift_even:
  assumes "even (length x)"
  shows "fftshift x = drop (length x div 2) x @ take (length x div 2) x"
proof (cases "x = []")
  case True
  then show ?thesis by (simp add: fftshift_def np_roll_def)
next
  case False
  then have pos: "0 < length x" by simp
  then have lt: "length x div 2 < length x" by simp
  from assms have "length x - length x div 2 = length x div 2"
    by (auto elim!: evenE)
  with False lt show ?thesis by (simp add: fftshift_def np_roll_def)
qed

text \<open>
  Claim C8. On every vector of even length, the centring reorder applied twice gives the
  vector back.
\<close>

theorem fftshift_involution_even:
  assumes "even (length x)"
  shows "fftshift (fftshift x) = x"
proof -
  let ?h = "length x div 2"
  have len: "length x = ?h + ?h" using assms by (auto elim!: evenE)
  have e2: "even (length (fftshift x))" using assms by (simp add: fftshift_length)
  have outer: "fftshift (fftshift x) = drop ?h (fftshift x) @ take ?h (fftshift x)"
    using fftshift_even [OF e2] by (simp add: fftshift_length)
  have inner: "fftshift x = drop ?h x @ take ?h x" by (rule fftshift_even [OF assms])
  have front: "drop ?h (drop ?h x @ take ?h x) = take ?h x"
    using len by simp
  have rear: "take ?h (drop ?h x @ take ?h x) = drop ?h x"
    using len by simp
  show ?thesis unfolding outer unfolding inner front rear by simp
qed

theorem fftshift_involution_even_witness:
  "even (length [1, 2, 3, 4 :: real]) \<and> fftshift (fftshift [1, 2, 3, 4 :: real]) = [1, 2, 3, 4]"
proof -
  have h: "even (length [1, 2, 3, 4 :: real])" by simp
  show ?thesis using h fftshift_involution_even [OF h] by simp
qed

subsection \<open>Windowing\<close>

text \<open>
  Claim C3, as stated, fails: with a window of one coefficient the product is formed by
  broadcasting and nothing is raised, although the lengths differ.
\<close>

theorem window_multiply_broadcast_counterexample:
  "length [1, 2, 3 :: complex] \<noteq> length [2 :: real]
   \<and> window_multiply [1, 2, 3] [2] = Inr [2, 4, 6]"
  by (simp add: window_multiply_def)

text \<open>
  Claim C3, amended. For samples \<open>x\<close> and a window \<open>w\<close> of the same length the result
  \<open>y\<close> has that length and \<open>y[i] = x[i] * w[i]\<close> at every index. When the lengths differ
  and neither is one, the product raises ValueError. When the lengths differ and one of
  them is one, the single item is multiplied with every item of the other array.
\<close>

theorem window_multiply_spec:
  "(length x = length w \<longrightarrow>
      (\<exists>y. window_multiply x w = Inr y \<and> length y = length x
           \<and> (\<forall>i < length x. y ! i = x ! i * complex_of_real (w ! i))))
   \<and> (length x \<noteq> length w \<and> length x \<noteq> 1 \<and> length w \<noteq> 1 \<longrightarrow>
        window_multiply x w = Inl ValueError)
   \<and> (length x \<noteq> length w \<and> length w = 1 \<longrightarrow>
        window_multiply x w = Inr (map (\<lambda>c. c * complex_of_real (w ! 0)) x))
   \<and> (length x \<noteq> length w \<and> length x = 1 \<longrightarrow>
        window_multiply x w = Inr (map (\<lambda>v. x ! 0 * complex_of_real v) w))"
proof (intro conjI impI)
  assume eq: "length x = length w"
  show "\<exists>y. window_multiply x w = Inr y \<and> length y = length x
           \<and> (\<forall>i < length x. y ! i = x ! i * complex_of_real (w ! i))"
    using eq by (simp add: window_multiply_def)
next
  assume "length x \<noteq> length w \<and> length x \<noteq> 1 \<and> length w \<noteq> 1"
  then show "window_multiply x w = Inl ValueError" by (simp add: window_multiply_def)
next
  assume "length x \<noteq> length w \<and> length w = 1"
  then show "window_multiply x w = Inr (map (\<lambda>c. c * complex_of_real (w ! 0)) x)"
    by (cases w) (auto simp: window_multiply_def)
next
  assume a: "length x \<noteq> length w \<and> length x = 1"
  then have "length w \<noteq> 1" by auto
  with a show "window_multiply x w = Inr (map (\<lambda>v. x ! 0 * complex_of_real v) w)"
    by (cases x) (auto simp: window_multiply_def)
qed

theorem window_multiply_spec_witness:
  "length [1, \<i>] = length [2, 3 :: real] \<and> window_multiply [1, \<i>] [2, 3] = Inr [2, 3 * \<i>]
   \<and> length [1, 2, 3 :: complex] \<noteq> length [1, 1 :: real]
   \<and> window_multiply [1, 2, 3] [1, 1] = Inl ValueError
   \<and> length [\<i>, 1] \<noteq> length [2 :: real] \<and> window_multiply [\<i>, 1] [2] = Inr [\<i> * 2, 2]
   \<and> length [\<i>] \<noteq> length [2, 3 :: real] \<and> window_multiply [\<i>] [2, 3] = Inr [\<i> * 2, \<i> * 3]"
proof -
  have "window_multiply [1, \<i>] [2, 3] = Inr [2, 3 * \<i>]"
    using window_multiply_spec [of "[1, \<i>]" "[2, 3]"]
    by (auto simp: less_Suc_eq complex_eq_iff list_eq_iff_nth_eq)
  moreover have "window_multiply [1, 2, 3] [1, 1] = Inl ValueError"
    using window_multiply_spec [of "[1, 2, 3]" "[1, 1]"] by simp
  moreover have "window_multiply [\<i>, 1] [2] = Inr [\<i> * 2, 2]"
    using window_multiply_spec [of "[\<i>, 1]" "[2]"] by simp
  moreover have "window_multiply [\<i>] [2, 3] = Inr [\<i> * 2, \<i> * 3]"
    using window_multiply_spec [of "[\<i>]" "[2, 3]"] by simp
  ultimately show ?thesis by simp
qed

subsection \<open>The spectral transform\<close>

lemma fft_Inr: "a \<noteq> [] \<Longrightarrow> \<exists>X. fft a = Inr X \<and> length X = length a
   \<and> (\<forall>k < length a. X ! k = (\<Sum>m < length a. a ! m * cis (- (2 * pi * real m * real k / real (length a)))))"
  by (simp add: fft_def)

lemma cis_drop_turns: "cis (a + 2 * pi * (- real m)) = cis a"
proof -
  have "cis (a + 2 * pi * (- real m)) = cis a * cis (2 * pi * (- real m))"
    by (rule cis_mult [symmetric])
  also have "cis (2 * pi * (- real m)) = 1" by (rule cis_multiple_2pi) simp
  finally show ?thesis by simp
qed

lemma fftshift_nth:
  assumes "i < length X"
  shows "fftshift X ! i =
           (if i < length X div 2 then X ! (i + (length X - length X div 2))
            else X ! (i - length X div 2))"
proof -
  let ?n = "length X" and ?h = "length X div 2"
  have ne: "X \<noteq> []" using assms by auto
  have h: "?h < ?n" using assms by simp
  have f: "fftshift X = drop (?n - ?h) X @ take (?n - ?h) X"
    using ne h by (simp add: fftshift_def np_roll_def)
  have l: "length (drop (?n - ?h) X) = ?h" using h by simp
  show ?thesis
    unfolding f using assms h by (auto simp: nth_append add.commute)
qed

lemma spectral_transform_bin:
  assumes "y \<noteq> []"
  shows "\<exists>s. spectral_transform y = Inr s \<and> length s = length y
           \<and> (\<forall>i < length y. s ! i = dtft y ((real i - real (length y div 2)) / real (length y)))"
proof -
  let ?n = "length y" and ?h = "length y div 2"
  from fft_Inr [OF assms(1)] obtain X where X: "fft y = Inr X" "length X = ?n"
    and Xk: "\<And>k. k < ?n \<Longrightarrow> X ! k = (\<Sum>m < ?n. y ! m * cis (- (2 * pi * real m * real k / real ?n)))"
    by blast
  have pos: "0 < ?n" using assms(1) by simp
  have h: "?h < ?n" using pos by simp
  have st: "spectral_transform y = Inr (fftshift X)" using X by (simp add: spectral_transform_def)
  have "fftshift X ! i = dtft y ((real i - real ?h) / real ?n)" if "i < ?n" for i
  proof (cases "i < ?h")
    case True
    then have k: "i + (?n - ?h) < ?n" using h by simp
    have r: "real (i + (?n - ?h)) = (real i - real ?h) + real ?n" using h by simp
    have "fftshift X ! i = X ! (i + (?n - ?h))"
      using fftshift_nth [of i X] that X(2) True by simp
    also have "\<dots> = (\<Sum>m < ?n. y ! m * cis (- (2 * pi * real m * real (i + (?n - ?h)) / real ?n)))"
      by (rule Xk [OF k])
    also have "\<dots> = (\<Sum>m < ?n. y ! m * cis (- (2 * pi * ((real i - real ?h) / real ?n) * real m)))"
    proof (rule sum.cong [OF refl])
      fix m
      have e: "- (2 * pi * real m * real (i + (?n - ?h)) / real ?n)
              = - (2 * pi * ((real i - real ?h) / real ?n) * real m) + 2 * pi * (- real m)"
        unfolding r using pos by (simp add: field_simps)
      then have "cis (- (2 * pi * real m * real (i + (?n - ?h)) / real ?n))
                        = cis (- (2 * pi * ((real i - real ?h) / real ?n) * real m))"
        by (simp only: cis_drop_turns)
      then show "y ! m * cis (- (2 * pi * real m * real (i + (?n - ?h)) / real ?n))
                 = y ! m * cis (- (2 * pi * ((real i - real ?h) / real ?n) * real m))"
        by simp
    qed
    finally show ?thesis by (simp add: dtft_def)
  next
    case False
    then have k: "i - ?h < ?n" using that by simp
    have r: "real (i - ?h) = real i - real ?h" using False by simp
    have "fftshift X ! i = X ! (i - ?h)"
      using fftshift_nth [of i X] that X(2) False by simp
    also have "\<dots> = (\<Sum>m < ?n. y ! m * cis (- (2 * pi * real m * real (i - ?h) / real ?n)))"
      by (rule Xk [OF k])
    also have "\<dots> = (\<Sum>m < ?n. y ! m * cis (- (2 * pi * ((real i - real ?h) / real ?n) * real m)))"
      unfolding r by (simp add: mult_ac)
    finally show ?thesis by (simp add: dtft_def)
  qed
  then show ?thesis using st X(2) by (simp add: fftshift_length)
qed


lemma dtft3: "dtft [a, b, c] \<nu> = a + b * cis (- (2 * pi * \<nu>)) + c * cis (- (2 * pi * \<nu> * 2))"
  by (simp add: dtft_def numeral_3_eq_3)

lemma cis_third_not_one: "cis (pi / 3) \<noteq> 1"
proof
  assume "cis (pi / 3) = 1"
  then have "Re (cis (pi / 3)) = Re 1" by simp
  then show False by (simp add: cos_60)
qed

lemma spectral_transform_example: "spectral_transform [1, \<i>] = Inr [1 - \<i>, 1 + \<i>]"
  by (simp add: spectral_transform_def fft_def fftshift_def np_roll_def numeral_2_eq_2 complex_eq_iff)

text \<open>
  Claim C7, as stated, fails on a vector of odd length. For \<open>y = [0, 1, 0]\<close> and
  \<open>fs = 3\<close> the middle bin of the result holds the sum of \<open>y\<close>, the transform at
  frequency 0, while \<open>-fs/2 + 1 * (fs/3)\<close> is \<open>-1/2\<close>.
\<close>

theorem spectral_transform_odd_counterexample:
  "spectral_transform [0, 1, 0] \<noteq> Inr (spec_centred_spectrum [0, 1, 0] 3)"
proof
  assume a: "spectral_transform [0, 1, 0] = Inr (spec_centred_spectrum [0, 1, 0] 3)"
  from spectral_transform_bin [of "[0, 1, 0]"] obtain s where
    s: "spectral_transform [0, 1, 0] = Inr s" and
    b: "\<forall>i < length [0, 1, 0 :: complex]. s ! i = dtft [0, 1, 0] ((real i - real (length [0, 1, 0 :: complex] div 2)) / real (length [0, 1, 0 :: complex]))"
    by blast
  from b have "s ! 1 = dtft [0, 1, 0] ((real 1 - real (length [0, 1, 0 :: complex] div 2)) / real (length [0, 1, 0 :: complex]))"
    by simp
  then have one: "s ! 1 = 1" by (simp add: dtft3)
  have "spec_centred_spectrum [0, 1, 0] 3 ! 1 = cis (pi / 3)"
    by (simp add: spec_centred_spectrum_def spec_bin_frequency_def dtft3)
  with a s one have "cis (pi / 3) = 1" by simp
  then show False using cis_third_not_one by simp
qed


text \<open>
  Claim C7, amended. For every vector \<open>y\<close> of length \<open>N > 0\<close> and every positive
  \<open>fs\<close>, the spectral transform step gives \<open>N\<close> bins, the unscaled discrete Fourier
  transform of \<open>y\<close> in ascending order of frequency: bin \<open>i\<close> holds the transform at the
  frequency \<open>-fs/2 + i * (fs/N)\<close> when \<open>N\<close> is even, and at
  \<open>-fs/2 + fs/(2N) + i * (fs/N)\<close>, half a bin higher, when \<open>N\<close> is odd.
\<close>

theorem spectral_transform_bins:
  assumes "y \<noteq> []" and "0 < fs"
  shows "\<exists>s. spectral_transform y = Inr s \<and> length s = length y
     \<and> (even (length y) \<longrightarrow>
          (\<forall>i < length y. s ! i = dtft y ((- fs / 2 + real i * (fs / real (length y))) / fs)))
     \<and> (odd (length y) \<longrightarrow>
          (\<forall>i < length y. s ! i
             = dtft y ((- fs / 2 + fs / (2 * real (length y)) + real i * (fs / real (length y))) / fs)))"
proof -
  let ?n = "length y" and ?h = "length y div 2"
  from spectral_transform_bin [OF assms(1)] obtain s where s: "spectral_transform y = Inr s"
    "length s = ?n" and b: "\<And>i. i < ?n \<Longrightarrow> s ! i = dtft y ((real i - real ?h) / real ?n)"
    by blast
  have pos: "0 < real ?n" using assms(1) by simp
  have ev: "(- fs / 2 + real i * (fs / real ?n)) / fs = (real i - real ?h) / real ?n"
    if "even ?n" for i
  proof -
    from that have "real ?h = real ?n / 2" by (auto elim!: evenE)
    then show ?thesis using pos assms(2) by (simp add: field_simps)
  qed
  have od: "(- fs / 2 + fs / (2 * real ?n) + real i * (fs / real ?n)) / fs = (real i - real ?h) / real ?n"
    if "odd ?n" for i
  proof -
    from that have "real ?n = 2 * real ?h + 1" by (auto elim!: oddE)
    then have h: "real ?h = (real ?n - 1) / 2" by simp
    have "(- fs / 2 + fs / (2 * real ?n) + real i * (fs / real ?n)) / fs
            = - 1 / 2 + 1 / (2 * real ?n) + real i / real ?n"
      using assms(2) by (simp add: field_simps)
    also have "\<dots> = (real i - (real ?n - 1) / 2) / real ?n"
      using pos by (simp add: field_simps)
    finally show ?thesis unfolding h .
  qed
  show ?thesis using s b ev od by auto
qed


theorem spectral_transform_bins_witness:
  "[1, \<i>] \<noteq> [] \<and> (0::real) < 2 \<and> even (length [1, \<i>])
   \<and> (\<exists>s. spectral_transform [1, \<i>] = Inr s \<and> length s = length [1, \<i>]
          \<and> (\<forall>i < length [1, \<i>].
                s ! i = dtft [1, \<i>] ((- 2 / 2 + real i * (2 / real (length [1, \<i>]))) / 2)))
   \<and> [0, 1, 0 :: complex] \<noteq> [] \<and> (0::real) < 3 \<and> odd (length [0, 1, 0 :: complex])
   \<and> (\<exists>s. spectral_transform [0, 1, 0] = Inr s \<and> length s = length [0, 1, 0 :: complex]
          \<and> (\<forall>i < length [0, 1, 0 :: complex].
                s ! i = dtft [0, 1, 0]
                  ((- 3 / 2 + 3 / (2 * real (length [0, 1, 0 :: complex]))
                    + real i * (3 / real (length [0, 1, 0 :: complex]))) / 3)))"
proof -
  have a: "[1, \<i>] \<noteq> []" and b: "(0::real) < 2" by simp_all
  have c: "[0, 1, 0 :: complex] \<noteq> []" and d: "(0::real) < 3" by simp_all
  have e: "even (length [1, \<i>])" and o: "odd (length [0, 1, 0 :: complex])" by simp_all
  show ?thesis
    using a b c d e o spectral_transform_bins [OF a b] spectral_transform_bins [OF c d]
    by blast
qed

subsection \<open>Power spectral density\<close>

lemma window_energy_nonneg: "0 \<le> np_sum (map (\<lambda>w. w ^ 2) window)"
  unfolding np_sum_def by (induction window) auto

lemma freq_to_psd_nth:
  "i < length data \<Longrightarrow>
   freq_to_psd data N fs window ! i
     = times_ten (where_positive_log10
         (np_true_divide ((cmod (data ! i)) ^ 2) fs (np_sum (map (\<lambda>w. w ^ 2) window))))"
  by (simp add: freq_to_psd_def)

text \<open>
  Claim C2. Bin \<open>i\<close> of the input has the magnitude \<open>a = |data[i]|\<close>, and the window has
  the energy \<open>E\<close>, the sum of its squared coefficients. Where \<open>fs * E\<close> is not zero, the
  estimator returns \<open>10 * log10 (a\<^sup>2 / (fs * E))\<close> in bin \<open>i\<close> when this ratio is
  positive and exactly 0 when it is not. Where \<open>fs * E\<close> is zero the ratio is numpy's
  quotient by zero: plus infinity for a positive \<open>a\<close> and an \<open>fs\<close> that is not
  negative, whose logarithm is plus infinity again, and minus infinity or NaN otherwise,
  which are not positive and give exactly 0. No case is minus infinity or an error.
\<close>

theorem freq_to_psd_bin:
  assumes "i < length data"
  shows "(fs * (\<Sum>w \<leftarrow> window. w ^ 2) \<noteq> 0
            \<and> 0 < (cmod (data ! i)) ^ 2 / (fs * (\<Sum>w \<leftarrow> window. w ^ 2)) \<longrightarrow>
            freq_to_psd data N fs window ! i
              = Finite (10 * log 10 ((cmod (data ! i)) ^ 2 / (fs * (\<Sum>w \<leftarrow> window. w ^ 2)))))
       \<and> (fs * (\<Sum>w \<leftarrow> window. w ^ 2) \<noteq> 0
            \<and> (cmod (data ! i)) ^ 2 / (fs * (\<Sum>w \<leftarrow> window. w ^ 2)) \<le> 0 \<longrightarrow>
            freq_to_psd data N fs window ! i = Finite 0)
       \<and> (fs * (\<Sum>w \<leftarrow> window. w ^ 2) = 0 \<longrightarrow>
            freq_to_psd data N fs window ! i
              = (if data ! i = 0 \<or> fs < 0 then Finite 0 else PosInf))"
proof -
  let ?E = "\<Sum>w \<leftarrow> window. w ^ 2"
  have E: "np_sum (map (\<lambda>w. w ^ 2) window) = ?E" by (simp add: np_sum_def)
  have nn: "0 \<le> ?E" using window_energy_nonneg [of window] E by simp
  show ?thesis
    using nn unfolding freq_to_psd_nth [OF assms] E
    by (auto simp: np_true_divide_def where_positive_log10_def times_ten_def)
qed

theorem freq_to_psd_bin_witness:
  "freq_to_psd [2, 0] 7 1 [1, 1] ! 0 = Finite (10 * log 10 2)
   \<and> freq_to_psd [2, 0] 7 1 [1, 1] ! 1 = Finite 0
   \<and> freq_to_psd [2, 0] 7 1 [0, 0] ! 0 = PosInf"
proof -
  have a: "(0::nat) < length [2, 0 :: complex]" and b: "(1::nat) < length [2, 0 :: complex]"
    by simp_all
  show ?thesis
    using freq_to_psd_bin [OF a, of 1 "[1, 1]" 7] freq_to_psd_bin [OF b, of 1 "[1, 1]" 7]
      freq_to_psd_bin [OF a, of 1 "[0, 0]" 7]
    by simp
qed

text \<open>
  Claim C10. The estimator validates no shape. Its parameter \<open>N\<close> does not change the
  result; two windows with the same sum of squared coefficients give the same result,
  whatever their lengths; and the result, which is a vector for every data vector and
  every window (the function has no failing case), has the length of the data vector.
\<close>

theorem freq_to_psd_shape_free:
  "freq_to_psd data N fs window = freq_to_psd data N' fs window
   \<and> ((\<Sum>w \<leftarrow> window. w ^ 2) = (\<Sum>w \<leftarrow> window'. w ^ 2) \<longrightarrow>
        freq_to_psd data N fs window = freq_to_psd data N fs window')
   \<and> length (freq_to_psd data N fs window) = length data"
  by (simp add: freq_to_psd_def np_sum_def)

theorem freq_to_psd_shape_free_witness:
  "(\<Sum>w \<leftarrow> [1, 2, 2 :: real]. w ^ 2) = (\<Sum>w \<leftarrow> [3]. w ^ 2)
   \<and> freq_to_psd [3, 0] 2 1 [1, 2, 2] = freq_to_psd [3, 0] 5 1 [1, 2, 2]
   \<and> freq_to_psd [3, 0] 2 1 [1, 2, 2] = freq_to_psd [3, 0] 2 1 [3]
   \<and> length (freq_to_psd [3, 0] 2 1 [1, 2, 2]) = length [3, 0 :: complex]"
proof -
  have h: "(\<Sum>w \<leftarrow> [1, 2, 2 :: real]. w ^ 2) = (\<Sum>w \<leftarrow> [3]. w ^ 2)" by simp
  show ?thesis
    using h freq_to_psd_shape_free [of "[3, 0]" 2 1 "[1, 2, 2]" 5 "[3]"] by blast
qed

subsection \<open>The signal-to-noise estimate\<close>

lemma Max_spike:
  fixes F H :: real
  assumes "F \<le> H"
  shows "Max (set (replicate k F @ H # replicate m F)) = H"
  using assms by (intro Max_eqI) auto

lemma calculate_simple_snr_spike:
  assumes "F \<le> H"
  shows "calculate_simple_snr (replicate k F @ H # replicate m F)
           = Inr (H - (real (k + m) * F + H) / real (k + m + 1))"
proof -
  have s: "sum_list (replicate k F @ H # replicate m F) = real (k + m) * F + H"
    by (simp add: sum_list_replicate algebra_simps)
  show ?thesis
    using Max_spike [OF assms, of k m] s
    by (simp add: calculate_simple_snr_def np_max_def np_average_def)
qed

text \<open>
  Claim C4. On every spectrum with at least one bin (\<^verbatim>\<open>np.max\<close> raises on none) the
  estimator returns the maximum minus the mean of all bins, the peak bin among them. On
  a spectrum of \<open>N\<close> bins that is a flat floor \<open>F\<close> with one spike of value \<open>H\<close>, not
  below the floor, it returns \<open>H - ((N - 1) * F + H) / N\<close>.
\<close>

theorem calculate_simple_snr_spec:
  "(spectrum \<noteq> [] \<longrightarrow>
      calculate_simple_snr spectrum
        = Inr (Max (set spectrum) - sum_list spectrum / real (length spectrum)))
   \<and> (F \<le> H \<and> N = length (replicate k F @ H # replicate m F) \<longrightarrow>
        calculate_simple_snr (replicate k F @ H # replicate m F)
          = Inr (H - ((real N - 1) * F + H) / real N))"
proof (intro conjI impI)
  assume "spectrum \<noteq> []"
  then show "calculate_simple_snr spectrum
        = Inr (Max (set spectrum) - sum_list spectrum / real (length spectrum))"
    by (simp add: calculate_simple_snr_def np_max_def np_average_def)
next
  assume a: "F \<le> H \<and> N = length (replicate k F @ H # replicate m F)"
  then have fh: "F \<le> H" and N: "N = k + m + 1" by simp_all
  have r: "real (k + m) = real N - 1" using N by simp
  show "calculate_simple_snr (replicate k F @ H # replicate m F)
          = Inr (H - ((real N - 1) * F + H) / real N)"
    using calculate_simple_snr_spike [OF fh, of k m] unfolding r N by simp
qed

theorem calculate_simple_snr_spec_witness:
  "[1, 1, 4, 1 :: real] \<noteq> [] \<and> (1::real) \<le> 4
   \<and> 4 = length (replicate 2 (1::real) @ 4 # replicate 1 1)
   \<and> calculate_simple_snr [1, 1, 4, 1] = Inr (4 - 7 / 4)
   \<and> calculate_simple_snr (replicate 2 1 @ 4 # replicate 1 1) = Inr (4 - ((real 4 - 1) * 1 + 4) / real 4)"
  using calculate_simple_snr_spec [of "[1, 1, 4, 1]" 1 4 4 2 1] by simp

subsection \<open>The fundamental estimate\<close>

lemma sorted_le_last:
  fixes xs :: "'a::linorder list"
  shows "sorted xs \<Longrightarrow> q \<in> set xs \<Longrightarrow> q \<le> last xs"
  by (induction xs) auto

lemma argsort_set: "argsort_contract argsort \<Longrightarrow> set (argsort xs) = {0 ..< length xs}"
  by (simp add: argsort_contract_def)

lemma argsort_length:
  assumes "argsort_contract argsort"
  shows "length (argsort xs) = length xs"
proof -
  have "distinct (argsort xs)" using assms by (simp add: argsort_contract_def)
  then have "length (argsort xs) = card (set (argsort xs))" by (simp add: distinct_card)
  then show ?thesis using argsort_set [OF assms, of xs] by simp
qed

lemma argsort_sorted:
  "argsort_contract argsort \<Longrightarrow> sorted (map (\<lambda>i. xs ! i) (argsort xs))"
  by (simp add: argsort_contract_def)

lemma argsort_last_max:
  assumes "argsort_contract argsort" and "xs \<noteq> []"
  shows "last (argsort xs) < length xs" and "xs ! last (argsort xs) = Max (set xs)"
proof -
  let ?s = "argsort xs"
  have ne: "?s \<noteq> []" using assms(2) argsort_length [OF assms(1), of xs] by auto
  then have "last ?s \<in> set ?s" by simp
  then show lt: "last ?s < length xs" by (simp add: argsort_set [OF assms(1)])
  have ub: "x \<le> xs ! last ?s" if "x \<in> set xs" for x
  proof -
    from that obtain i where i: "i < length xs" "x = xs ! i" by (auto simp: in_set_conv_nth)
    then have "i \<in> set ?s" by (simp add: argsort_set [OF assms(1)])
    then have "xs ! i \<in> set (map (\<lambda>i. xs ! i) ?s)" by auto
    then have "xs ! i \<le> last (map (\<lambda>i. xs ! i) ?s)"
      using argsort_sorted [OF assms(1), of xs] sorted_le_last by blast
    then show ?thesis using i ne by (simp add: last_map)
  qed
  have "xs ! last ?s \<in> set xs" using lt by simp
  then show "xs ! last ?s = Max (set xs)"
    using ub by (intro Max_eqI [symmetric]) auto
qed

lemma stable_argsort_contract: "argsort_contract stable_argsort"
  by (simp add: argsort_contract_def stable_argsort_def sorted_sort_key)

lemma sorted_rev_negated:
  fixes f :: "'a \<Rightarrow> real"
  shows "sorted (map (\<lambda>i. - f i) s) \<Longrightarrow> sorted (map f (rev s))"
  by (induction s) (auto simp: sorted_append)

lemma reversing_argsort_contract: "argsort_contract reversing_argsort"
proof -
  have "sorted (map (\<lambda>i. xs ! i) (reversing_argsort xs))" for xs :: "real list"
    unfolding reversing_argsort_def
    by (rule sorted_rev_negated) (rule sorted_sort_key)
  then show ?thesis by (simp add: argsort_contract_def reversing_argsort_def)
qed

lemma item0_last_slice: "a \<noteq> [] \<Longrightarrow> item0 (last_slice a) = Inr (last a)"
  by (induction a rule: rev_induct) (auto simp: item0_def last_slice_def)

lemma calculate_fundamental_last:
  assumes "argsort_contract argsort" and "N \<noteq> 0" and "spectrum \<noteq> []"
  shows "calculate_fundamental argsort spectrum fs N rf
           = Inr (real (last (argsort spectrum)) * (fs / real_of_int N) + rf - fs / 2)"
proof -
  have ne: "argsort spectrum \<noteq> []"
    using assms(3) argsort_length [OF assms(1), of spectrum] by auto
  show ?thesis
    using assms(2) item0_last_slice [OF ne] by (simp add: calculate_fundamental_def)
qed

text \<open>
  The contract leaves the bin open when two bins share the maximum: on the spectrum
  \<open>[7, 7, 0, 0]\<close> one sort that meets it leads to bin 1 and another to bin 0.
\<close>

lemma tie_break_is_open:
  "calculate_fundamental stable_argsort [7, 7, 0, 0] 8 4 10 = Inr (real 1 * (8 / 4) + 10 - 8 / 2)
   \<and> calculate_fundamental reversing_argsort [7, 7, 0, 0] 8 4 10
       = Inr (real 0 * (8 / 4) + 10 - 8 / 2)"
  by (simp add: calculate_fundamental_def stable_argsort_def reversing_argsort_def
      last_slice_def item0_def)

text \<open>
  Claim C1, as stated, fails on a tie: where two bins share the maximum, the estimator
  does not have to use the first of them. On the spectrum \<open>[5, 5]\<close> a sort that leaves
  the two indices as they are, \<open>[0, 1]\<close>, meets the contract; its last index is 1, and
  the result differs from the one the first occurrence (index 0) would give.
\<close>

theorem calculate_fundamental_first_peak_counterexample:
  "argsort_contract stable_argsort \<and> stable_argsort [5, 5] = [0, 1]
   \<and> calculate_fundamental stable_argsort [5, 5] 2 2 0
       \<noteq> Inr (real (spec_first_peak_index [5, 5]) * (2 / real_of_int 2) + 0 - 2 / 2)"
  using stable_argsort_contract
  by (simp add: calculate_fundamental_def stable_argsort_def last_slice_def item0_def
      spec_first_peak_index_def)

text \<open>
  Claim C1, amended. For every sort that meets the contract of \<^verbatim>\<open>np.argsort\<close>, every
  spectrum with at least one bin and every sample count \<open>N\<close> that is not zero, the
  estimator returns \<open>peak_index * (fs / N) + receive_center_frequency - fs / 2\<close>, where
  \<open>peak_index\<close> is an index of the maximum spectrum value, the one that the sort puts
  last. When one bin alone holds the maximum, \<open>peak_index\<close> is that bin, which is also
  the first occurrence. When several bins share the maximum, nothing is said about which
  of them it is.
\<close>

theorem calculate_fundamental_peak:
  assumes "argsort_contract argsort" and "N \<noteq> 0" and "spectrum \<noteq> []"
  shows "\<exists>p < length spectrum.
           calculate_fundamental argsort spectrum fs N rf
             = Inr (real p * (fs / real_of_int N) + rf - fs / 2)
         \<and> p = last (argsort spectrum)
         \<and> spectrum ! p = Max (set spectrum)
         \<and> ((\<forall>q < length spectrum. q \<noteq> p \<longrightarrow> spectrum ! q < spectrum ! p) \<longrightarrow>
              p = spec_first_peak_index spectrum)"
proof -
  let ?p = "last (argsort spectrum)"
  have r: "calculate_fundamental argsort spectrum fs N rf
          = Inr (real ?p * (fs / real_of_int N) + rf - fs / 2)"
    by (rule calculate_fundamental_last [OF assms])
  have lt: "?p < length spectrum" and m: "spectrum ! ?p = Max (set spectrum)"
    using argsort_last_max [OF assms(1) assms(3)] by auto
  have u: "?p = spec_first_peak_index spectrum"
    if alone: "\<forall>q < length spectrum. q \<noteq> ?p \<longrightarrow> spectrum ! q < spectrum ! ?p"
  proof -
    let ?M = "Max (set spectrum)"
    have before: "\<forall>x \<in> set (take ?p spectrum). x \<noteq> ?M"
    proof
      fix x assume "x \<in> set (take ?p spectrum)"
      then obtain q where q: "q < ?p" "x = spectrum ! q"
        using lt by (auto simp: in_set_conv_nth)
      then have "spectrum ! q < spectrum ! ?p" using alone lt by simp
      then show "x \<noteq> ?M" using q m by simp
    qed
    have split: "spectrum = take ?p spectrum @ spectrum ! ?p # drop (Suc ?p) spectrum"
      using lt by (simp add: id_take_nth_drop)
    have "takeWhile (\<lambda>x. x \<noteq> ?M) spectrum = take ?p spectrum"
      by (subst split) (use before m in \<open>simp add: takeWhile_append2\<close>)
    then show ?thesis using lt by (simp add: spec_first_peak_index_def)
  qed
  show ?thesis using r lt m u by blast
qed

theorem calculate_fundamental_peak_witness:
  "argsort_contract stable_argsort \<and> (4::int) \<noteq> 0 \<and> [1, 5, 3, 2 :: real] \<noteq> [] \<and>
   calculate_fundamental stable_argsort [1, 5, 3, 2] 8 4 10 = Inr 8 \<and>
   (\<exists>p < length [1, 5, 3, 2 :: real].
      calculate_fundamental stable_argsort [1, 5, 3, 2] 8 4 10
        = Inr (real p * (8 / real_of_int 4) + 10 - 8 / 2)
      \<and> p = last (stable_argsort [1, 5, 3, 2])
      \<and> [1, 5, 3, 2 :: real] ! p = Max (set [1, 5, 3, 2])
      \<and> p = spec_first_peak_index [1, 5, 3, 2])"
proof -
  have h1: "(4::int) \<noteq> 0" by simp
  have h2: "[1, 5, 3, 2 :: real] \<noteq> []" by simp
  have l: "last (stable_argsort [1, 5, 3, 2]) = 1" by (simp add: stable_argsort_def)
  have alone: "\<forall>q < length [1, 5, 3, 2 :: real].
      q \<noteq> last (stable_argsort [1, 5, 3, 2])
      \<longrightarrow> [1, 5, 3, 2 :: real] ! q < [1, 5, 3, 2] ! last (stable_argsort [1, 5, 3, 2])"
    unfolding l by (auto simp: less_Suc_eq numeral_eq_Suc)
  have v: "calculate_fundamental stable_argsort [1, 5, 3, 2] 8 4 10 = Inr 8"
    by (simp add: calculate_fundamental_def stable_argsort_def last_slice_def item0_def)
  from calculate_fundamental_peak [OF stable_argsort_contract h1 h2, of 8 10] alone
  have "\<exists>p < length [1, 5, 3, 2 :: real].
      calculate_fundamental stable_argsort [1, 5, 3, 2] 8 4 10
        = Inr (real p * (8 / real_of_int 4) + 10 - 8 / 2)
      \<and> p = last (stable_argsort [1, 5, 3, 2])
      \<and> [1, 5, 3, 2 :: real] ! p = Max (set [1, 5, 3, 2])
      \<and> p = spec_first_peak_index [1, 5, 3, 2]"
    by blast
  then show ?thesis using stable_argsort_contract h1 h2 v by blast
qed

subsection \<open>Running a piece of notebook code\<close>

lemma exec_then_do:
  "exec hw (then_do p k) w =
     (case exec hw p w of Inl e \<Rightarrow> Inl e | Inr (x, w') \<Rightarrow> exec hw (k x) w')"
  by (induction p arbitrary: w) (auto split: sum.splits)

lemma calls_then_do:
  "calls hw (then_do p k) w =
     calls hw p w @ (case exec hw p w of Inl e \<Rightarrow> [] | Inr (x, w') \<Rightarrow> calls hw (k x) w')"
  by (induction p arbitrary: w) (auto split: sum.splits)

lemma exec_lift: "exec hw (lift r) w = (case r of Inl e \<Rightarrow> Inl e | Inr x \<Rightarrow> Inr (x, w))"
  by (simp add: lift_def split: sum.splits)

lemma calls_lift: "calls hw (lift r) w = []"
  by (simp add: lift_def split: sum.splits)

lemma spectra_read_append: "spectra_read (xs @ ys) = spectra_read xs @ spectra_read ys"
  by (induction xs rule: spectra_read.induct) auto

lemma captures_append: "captures (xs @ ys) = captures xs @ captures ys"
  by (induction xs rule: captures.induct) auto

lemma analyser_centres_append:
  "analyser_centres (xs @ ys) = analyser_centres xs @ analyser_centres ys"
  by (induction xs rule: analyser_centres.induct) auto

lemma raises_after_exec:
  "raises_after hw p w n e \<Longrightarrow> exec hw p w = Inl e \<and> length (calls hw p w) = Suc n"
  by (induction rule: raises_after.induct) auto

lemma raises_after_simps:
  "raises_after hw (Return x) w n e = False"
  "raises_after hw (Raise e') w n e = False"
  "raises_after hw (Perform c p) w 0 e = (perform hw c w = Inl e)"
  "raises_after hw (Perform c p) w (Suc n) e
     = (\<exists>w'. perform hw c w = Inr w' \<and> raises_after hw p w' n e)"
  "raises_after hw (GetSpectrum a k) w 0 e = (get_spectrum hw a w = Inl e)"
  "raises_after hw (GetSpectrum a k) w (Suc n) e
     = (\<exists>s w'. get_spectrum hw a w = Inr (s, w') \<and> raises_after hw (k s) w' n e)"
  by (auto elim: raises_after.cases intro: raises_after.intros)

subsection \<open>The loops of the sweep\<close>

lemma configure_generators_quiet:
  "spectra_read (calls hw (configure_generators gs amplitude frequency) w) = []
   \<and> captures (calls hw (configure_generators gs amplitude frequency) w) = []
   \<and> analyser_centres (calls hw (configure_generators gs amplitude frequency) w) = []"
  by (induction gs arbitrary: w) (auto split: sum.splits)

lemma zone_eq:
  "(if frequency * 1000000 < fs then frequency_zones ! 0 else frequency_zones ! 1)
     = spec_receive_centre fs frequency"
  by (simp add: frequency_zones_def spec_receive_centre_def)

lemma measure_analysers_done:
  assumes "exec hw (measure_analysers nb frequency as (F, S)) w = Inr ((F', S'), w')"
  shows "\<exists>Fs Ss. F' = F @ Fs \<and> S' = S @ Ss
           \<and> analyser_centres (calls hw (measure_analysers nb frequency as (F, S)) w)
               = map (\<lambda>a. (a, spec_receive_centre (sample_frequency nb) frequency)) as
           \<and> map fst (spectra_read (calls hw (measure_analysers nb frequency as (F, S)) w)) = as
           \<and> captures (calls hw (measure_analysers nb frequency as (F, S)) w)
               = concat (map (\<lambda>(a, s). [Called (UpdateSpectrum a), Got a s])
                   (spectra_read (calls hw (measure_analysers nb frequency as (F, S)) w)))
           \<and> length Fs = length as \<and> length Ss = length as
           \<and> (\<forall>i < length as.
                 measured nb frequency
                   (snd (spectra_read (calls hw (measure_analysers nb frequency as (F, S)) w) ! i))
                   (Fs ! i) (Ss ! i))"
  using assms
proof (induction as arbitrary: F S w)
  case Nil
  then show ?case by simp
next
  case (Cons a as)
  let ?rf = "spec_receive_centre (sample_frequency nb) frequency"
  from Cons.prems obtain w1 w2 w3 w4 spectrum mv mi x s where
    c1: "perform hw (SetAnalyserCentre a ?rf) w = Inr w1" and
    c2: "perform hw (SetPlotCentre a (?rf * 1000000)) w1 = Inr w2" and
    c3: "perform hw (UpdateSpectrum a) w2 = Inr w3" and
    c4: "get_spectrum hw a w3 = Inr (spectrum, w4)" and
    m1: "np_max spectrum = Inr mv" and
    m2: "item0 (last_slice (np_argsort nb spectrum)) = Inr mi" and
    m3: "calculate_fundamental (np_argsort nb) spectrum (sample_frequency nb) (number_samples nb)
           (?rf * 1000000) = Inr x" and
    m4: "calculate_simple_snr spectrum = Inr s" and
    rest: "exec hw (measure_analysers nb frequency as (F @ [x * (1 / 1000000)], S @ [s])) w4
             = Inr ((F', S'), w')"
    by (auto simp: zone_eq Let_def exec_then_do exec_lift split: sum.splits prod.splits)
  let ?cr = "calls hw (measure_analysers nb frequency as (F @ [x * (1 / 1000000)], S @ [s])) w4"
  have cs: "calls hw (measure_analysers nb frequency (a # as) (F, S)) w
      = Called (SetAnalyserCentre a ?rf) # Called (SetPlotCentre a (?rf * 1000000))
        # Called (UpdateSpectrum a) # Got a spectrum # ?cr"
    using c1 c2 c3 c4 m1 m2 m3 m4
    by (simp add: zone_eq Let_def calls_then_do calls_lift exec_then_do exec_lift)
  from Cons.IH [OF rest] obtain Fs Ss where
    ih: "F' = (F @ [x * (1 / 1000000)]) @ Fs" "S' = (S @ [s]) @ Ss"
      "analyser_centres ?cr = map (\<lambda>a. (a, ?rf)) as"
      "map fst (spectra_read ?cr) = as"
      "captures ?cr = concat (map (\<lambda>(a, s). [Called (UpdateSpectrum a), Got a s])
                                 (spectra_read ?cr))"
      "length Fs = length as" "length Ss = length as"
      "\<forall>i < length as. measured nb frequency (snd (spectra_read ?cr ! i)) (Fs ! i) (Ss ! i)"
    by blast
  have m: "measured nb frequency spectrum (x * (1 / 1000000)) s"
    using m3 m4 by (simp add: measured_def measurement_def)
  show ?case
  proof (intro exI conjI)
    show "F' = F @ (x * (1 / 1000000) # Fs)" using ih(1) by simp
    show "S' = S @ (s # Ss)" using ih(2) by simp
    show "analyser_centres (calls hw (measure_analysers nb frequency (a # as) (F, S)) w)
            = map (\<lambda>a. (a, ?rf)) (a # as)"
      unfolding cs using ih(3) by simp
    show "map fst (spectra_read (calls hw (measure_analysers nb frequency (a # as) (F, S)) w))
            = a # as"
      unfolding cs using ih(4) by simp
    show "captures (calls hw (measure_analysers nb frequency (a # as) (F, S)) w)
            = concat (map (\<lambda>(a, s). [Called (UpdateSpectrum a), Got a s])
                (spectra_read (calls hw (measure_analysers nb frequency (a # as) (F, S)) w)))"
      unfolding cs using ih(5) by simp
    show "length (x * (1 / 1000000) # Fs) = length (a # as)" using ih(6) by simp
    show "length (s # Ss) = length (a # as)" using ih(7) by simp
    show "\<forall>i < length (a # as). measured nb frequency
            (snd (spectra_read (calls hw (measure_analysers nb frequency (a # as) (F, S)) w) ! i))
            ((x * (1 / 1000000) # Fs) ! i) ((s # Ss) ! i)"
      unfolding cs using ih(8) m by (auto simp: nth_Cons split: nat.splits)
  qed
qed

lemma nth_block:
  assumes "length xs = n"
  shows "i < n \<Longrightarrow> (xs @ ys) ! (0 * n + i) = xs ! i"
    and "(xs @ ys) ! (Suc j * n + i) = ys ! (j * n + i)"
  using assms by (auto simp: nth_append)

lemma sweep_frequencies_done:
  assumes "exec hw (sweep_frequencies nb amplitude freqs (F, S)) w = Inr ((F', S'), w')"
  shows "\<exists>Fs Ss. F' = F @ Fs \<and> S' = S @ Ss
           \<and> analyser_centres (calls hw (sweep_frequencies nb amplitude freqs (F, S)) w)
               = concat (map (\<lambda>f. map (\<lambda>a. (a, spec_receive_centre (sample_frequency nb) f))
                                     (analysers nb)) freqs)
           \<and> map fst (spectra_read (calls hw (sweep_frequencies nb amplitude freqs (F, S)) w))
               = concat (map (\<lambda>f. analysers nb) freqs)
           \<and> captures (calls hw (sweep_frequencies nb amplitude freqs (F, S)) w)
               = concat (map (\<lambda>(a, s). [Called (UpdateSpectrum a), Got a s])
                   (spectra_read (calls hw (sweep_frequencies nb amplitude freqs (F, S)) w)))
           \<and> length (spectra_read (calls hw (sweep_frequencies nb amplitude freqs (F, S)) w))
               = length freqs * length (analysers nb)
           \<and> length Fs = length freqs * length (analysers nb)
           \<and> length Ss = length freqs * length (analysers nb)
           \<and> (\<forall>j < length freqs. \<forall>i < length (analysers nb).
                 fst (spectra_read (calls hw (sweep_frequencies nb amplitude freqs (F, S)) w)
                        ! (j * length (analysers nb) + i)) = analysers nb ! i
               \<and> measured nb (freqs ! j)
                   (snd (spectra_read (calls hw (sweep_frequencies nb amplitude freqs (F, S)) w)
                      ! (j * length (analysers nb) + i)))
                   (Fs ! (j * length (analysers nb) + i))
                   (Ss ! (j * length (analysers nb) + i)))"
  using assms
proof (induction freqs arbitrary: F S w)
  case Nil
  then show ?case by simp
next
  case (Cons f freqs)
  let ?n = "length (analysers nb)"
  let ?cfg = "configure_generators (generators nb) amplitude f"
  let ?pair = "\<lambda>(a, s). [Called (UpdateSpectrum a), Got a s]"
  from Cons.prems obtain u w1 w2 F1 S1 w3 where
    e1: "exec hw ?cfg w = Inr (u, w1)" and
    e2: "perform hw (Sleep 1) w1 = Inr w2" and
    e3: "exec hw (measure_analysers nb f (analysers nb) (F, S)) w2 = Inr ((F1, S1), w3)" and
    e4: "exec hw (sweep_frequencies nb amplitude freqs (F1, S1)) w3 = Inr ((F', S'), w')"
    by (auto simp: exec_then_do split: sum.splits prod.splits)
  let ?cm = "calls hw (measure_analysers nb f (analysers nb) (F, S)) w2"
  let ?cr = "calls hw (sweep_frequencies nb amplitude freqs (F1, S1)) w3"
  have cs: "calls hw (sweep_frequencies nb amplitude (f # freqs) (F, S)) w
              = calls hw ?cfg w @ Called (Sleep 1) # ?cm @ ?cr"
    using e1 e2 e3 by (simp add: calls_then_do exec_then_do)
  have sp: "spectra_read (calls hw (sweep_frequencies nb amplitude (f # freqs) (F, S)) w)
              = spectra_read ?cm @ spectra_read ?cr"
    unfolding cs by (simp add: spectra_read_append configure_generators_quiet)
  have cp: "captures (calls hw (sweep_frequencies nb amplitude (f # freqs) (F, S)) w)
              = captures ?cm @ captures ?cr"
    unfolding cs by (simp add: captures_append configure_generators_quiet)
  have ac: "analyser_centres (calls hw (sweep_frequencies nb amplitude (f # freqs) (F, S)) w)
              = analyser_centres ?cm @ analyser_centres ?cr"
    unfolding cs by (simp add: analyser_centres_append configure_generators_quiet)
  from measure_analysers_done [OF e3] obtain Fm Sm where
    m: "F1 = F @ Fm" "S1 = S @ Sm"
       "analyser_centres ?cm = map (\<lambda>a. (a, spec_receive_centre (sample_frequency nb) f)) (analysers nb)"
       "map fst (spectra_read ?cm) = analysers nb"
       "captures ?cm = concat (map ?pair (spectra_read ?cm))"
       "length Fm = ?n" "length Sm = ?n"
       "\<forall>i < ?n. measured nb f (snd (spectra_read ?cm ! i)) (Fm ! i) (Sm ! i)"
    by blast
  have lm: "length (spectra_read ?cm) = ?n" using m(4) length_map [of fst "spectra_read ?cm"] by simp
  from Cons.IH [OF e4] obtain Fr Sr where
    r: "F' = F1 @ Fr" "S' = S1 @ Sr"
       "analyser_centres ?cr
          = concat (map (\<lambda>f. map (\<lambda>a. (a, spec_receive_centre (sample_frequency nb) f))
                                (analysers nb)) freqs)"
       "map fst (spectra_read ?cr) = concat (map (\<lambda>f. analysers nb) freqs)"
       "captures ?cr = concat (map ?pair (spectra_read ?cr))"
       "length (spectra_read ?cr) = length freqs * ?n"
       "length Fr = length freqs * ?n" "length Sr = length freqs * ?n"
       "\<forall>j < length freqs. \<forall>i < ?n.
           fst (spectra_read ?cr ! (j * ?n + i)) = analysers nb ! i
         \<and> measured nb (freqs ! j) (snd (spectra_read ?cr ! (j * ?n + i)))
             (Fr ! (j * ?n + i)) (Sr ! (j * ?n + i))"
    by blast
  show ?case
  proof (intro exI conjI)
    show "F' = F @ (Fm @ Fr)" using m(1) r(1) by simp
    show "S' = S @ (Sm @ Sr)" using m(2) r(2) by simp
    show "analyser_centres (calls hw (sweep_frequencies nb amplitude (f # freqs) (F, S)) w)
            = concat (map (\<lambda>f. map (\<lambda>a. (a, spec_receive_centre (sample_frequency nb) f))
                                  (analysers nb)) (f # freqs))"
      unfolding ac using m(3) r(3) by simp
    show "map fst (spectra_read (calls hw (sweep_frequencies nb amplitude (f # freqs) (F, S)) w))
            = concat (map (\<lambda>f. analysers nb) (f # freqs))"
      unfolding sp using m(4) r(4) by simp
    show "captures (calls hw (sweep_frequencies nb amplitude (f # freqs) (F, S)) w)
            = concat (map ?pair
                (spectra_read (calls hw (sweep_frequencies nb amplitude (f # freqs) (F, S)) w)))"
      unfolding sp cp using m(5) r(5) by simp
    show "length (spectra_read (calls hw (sweep_frequencies nb amplitude (f # freqs) (F, S)) w))
            = length (f # freqs) * ?n"
      unfolding sp using lm r(6) by simp
    show "length (Fm @ Fr) = length (f # freqs) * ?n" using m(6) r(7) by simp
    show "length (Sm @ Sr) = length (f # freqs) * ?n" using m(7) r(8) by simp
    show "\<forall>j < length (f # freqs). \<forall>i < ?n.
            fst (spectra_read (calls hw (sweep_frequencies nb amplitude (f # freqs) (F, S)) w)
                 ! (j * ?n + i)) = analysers nb ! i
          \<and> measured nb ((f # freqs) ! j)
              (snd (spectra_read (calls hw (sweep_frequencies nb amplitude (f # freqs) (F, S)) w)
                 ! (j * ?n + i)))
              ((Fm @ Fr) ! (j * ?n + i)) ((Sm @ Sr) ! (j * ?n + i))"
    proof (intro allI impI)
      fix j i
      assume j: "j < length (f # freqs)" and i: "i < ?n"
      show "fst (spectra_read (calls hw (sweep_frequencies nb amplitude (f # freqs) (F, S)) w)
                 ! (j * ?n + i)) = analysers nb ! i
          \<and> measured nb ((f # freqs) ! j)
              (snd (spectra_read (calls hw (sweep_frequencies nb amplitude (f # freqs) (F, S)) w)
                 ! (j * ?n + i)))
              ((Fm @ Fr) ! (j * ?n + i)) ((Sm @ Sr) ! (j * ?n + i))"
      proof (cases j)
        case 0
        have "fst (spectra_read ?cm ! i) = analysers nb ! i"
          using m(4) i lm nth_map [of i "spectra_read ?cm" fst] by simp
        then show ?thesis
          unfolding sp using 0 m(8) i nth_block(1) [OF lm i] nth_block(1) [OF m(6) i]
            nth_block(1) [OF m(7) i]
          by simp
      next
        case (Suc j')
        then have "j' < length freqs" using j by simp
        then have "fst (spectra_read ?cr ! (j' * ?n + i)) = analysers nb ! i
           \<and> measured nb (freqs ! j') (snd (spectra_read ?cr ! (j' * ?n + i)))
             (Fr ! (j' * ?n + i)) (Sr ! (j' * ?n + i))"
          using r(9) i by blast
        then show ?thesis
          unfolding sp Suc
          using nth_block(2) [OF lm, of "spectra_read ?cr" j' i]
            nth_block(2) [OF m(6), of Fr j' i] nth_block(2) [OF m(7), of Sr j' i]
          by simp
      qed
    qed
  qed
qed

lemma run_spectrum_sweep_done:
  assumes "exec hw (run_spectrum_sweep nb frequencies amplitude) w = Inr (tables, w')"
  shows "\<exists>Fs Ss. tables = result_tables nb frequencies (Fs, Ss)
           \<and> analyser_centres (calls hw (run_spectrum_sweep nb frequencies amplitude) w)
               = concat (map (\<lambda>f. map (\<lambda>a. (a, spec_receive_centre (sample_frequency nb) f))
                                     (analysers nb)) frequencies)
           \<and> captures (calls hw (run_spectrum_sweep nb frequencies amplitude) w)
               = concat (map (\<lambda>(a, s). [Called (UpdateSpectrum a), Got a s])
                   (spectra_read (calls hw (run_spectrum_sweep nb frequencies amplitude) w)))
           \<and> length (spectra_read (calls hw (run_spectrum_sweep nb frequencies amplitude) w))
               = length frequencies * length (analysers nb)
           \<and> length Fs = length frequencies * length (analysers nb)
           \<and> length Ss = length frequencies * length (analysers nb)
           \<and> (\<forall>j < length frequencies. \<forall>i < length (analysers nb).
                 fst (spectra_read (calls hw (run_spectrum_sweep nb frequencies amplitude) w)
                        ! (j * length (analysers nb) + i)) = analysers nb ! i
               \<and> measured nb (frequencies ! j)
                   (snd (spectra_read (calls hw (run_spectrum_sweep nb frequencies amplitude) w)
                      ! (j * length (analysers nb) + i)))
                   (Fs ! (j * length (analysers nb) + i))
                   (Ss ! (j * length (analysers nb) + i)))"
proof -
  let ?sw = "sweep_frequencies nb amplitude frequencies ([], [])"
  from assms obtain F S where
    e: "exec hw ?sw w = Inr ((F, S), w')" and t: "tables = result_tables nb frequencies (F, S)"
    by (auto simp: run_spectrum_sweep_def exec_then_do split: sum.splits prod.splits)
  have cs: "calls hw (run_spectrum_sweep nb frequencies amplitude) w = calls hw ?sw w"
    using e by (simp add: run_spectrum_sweep_def calls_then_do)
  from sweep_frequencies_done [OF e] show ?thesis
    unfolding cs using t by auto
qed

lemma step_slice_rows:
  assumes "length a = m * n" and "i < n"
  shows "length (step_slice a i n) = m"
    and "j < m \<Longrightarrow> step_slice a i n ! j = a ! (j * n + i)"
proof -
  have pos: "0 < n" using assms(2) by simp
  have cnt: "(length a - i + n - 1) div n = m"
  proof (cases "m = 0")
    case True
    then show ?thesis using assms(1) pos by simp
  next
    case False
    then have "n \<le> m * n" by simp
    then have "m * n - i + n - 1 = (n - 1 - i) + m * n" using assms(2) by arith
    then have "(length a - i + n - 1) div n = ((n - 1 - i) + m * n) div n"
      using assms(1) by simp
    also have "\<dots> = (n - 1 - i) div n + m" using pos by (subst div_mult_self1) auto
    also have "(n - 1 - i) div n = 0" using pos by simp
    finally show ?thesis by simp
  qed
  show "length (step_slice a i n) = m" unfolding step_slice_def cnt by simp
  show "j < m \<Longrightarrow> step_slice a i n ! j = a ! (j * n + i)"
    unfolding step_slice_def cnt by (simp add: add.commute)
qed

subsection \<open>Runs on hardware that does not raise\<close>

lemma configure_generators_completes:
  assumes "never_raises hw"
  shows "\<exists>w'. exec hw (configure_generators gs amplitude frequency) w = Inr ((), w')"
proof (induction gs arbitrary: w)
  case Nil
  then show ?case by simp
next
  case (Cons g gs)
  from assms obtain w1 where 1: "perform hw (SetGeneratorEnable g True) w = Inr w1"
    unfolding never_raises_def by blast
  from assms obtain w2 where 2: "perform hw (SetGeneratorGain g amplitude) w1 = Inr w2"
    unfolding never_raises_def by blast
  from assms obtain w3 where 3: "perform hw (SetGeneratorCentre g frequency) w2 = Inr w3"
    unfolding never_raises_def by blast
  from Cons [of w3] 1 2 3 show ?case by simp
qed

lemma measure_analysers_completes:
  assumes "never_raises hw" and "number_samples nb \<noteq> 0" and "argsort_contract (np_argsort nb)"
  shows "\<exists>r w'. exec hw (measure_analysers nb frequency as acc) w = Inr (r, w')"
proof (induction as arbitrary: acc w)
  case Nil
  then show ?case by simp
next
  case (Cons a as)
  obtain F S where acc: "acc = (F, S)" by (cases acc)
  let ?rf = "spec_receive_centre (sample_frequency nb) frequency"
  from assms(1) obtain w1 where 1: "perform hw (SetAnalyserCentre a ?rf) w = Inr w1"
    unfolding never_raises_def by blast
  from assms(1) obtain w2 where 2: "perform hw (SetPlotCentre a (?rf * 1000000)) w1 = Inr w2"
    unfolding never_raises_def by blast
  from assms(1) obtain w3 where 3: "perform hw (UpdateSpectrum a) w2 = Inr w3"
    unfolding never_raises_def by blast
  from assms(1) obtain spectrum w4 where 4: "get_spectrum hw a w3 = Inr (spectrum, w4)"
    and ne: "spectrum \<noteq> []"
    unfolding never_raises_def by blast
  have ne': "np_argsort nb spectrum \<noteq> []"
    using ne argsort_length [OF assms(3), of spectrum] by auto
  have m1: "np_max spectrum = Inr (Max (set spectrum))" using ne by (simp add: np_max_def)
  have m2: "item0 (last_slice (np_argsort nb spectrum)) = Inr (last (np_argsort nb spectrum))"
    by (rule item0_last_slice [OF ne'])
  note m3 = calculate_fundamental_last [OF assms(3) assms(2) ne,
      of "sample_frequency nb" "?rf * 1000000"]
  have m4: "calculate_simple_snr spectrum = Inr (Max (set spectrum) - np_average spectrum)"
    using m1 by (simp add: calculate_simple_snr_def)
  show ?case
    unfolding acc using 1 2 3 4 m1 m2 m3 m4 Cons
    by (simp add: zone_eq Let_def exec_then_do exec_lift)
qed

lemma sweep_frequencies_completes:
  assumes "never_raises hw" and "number_samples nb \<noteq> 0" and "argsort_contract (np_argsort nb)"
  shows "\<exists>r w'. exec hw (sweep_frequencies nb amplitude freqs acc) w = Inr (r, w')"
proof (induction freqs arbitrary: acc w)
  case Nil
  then show ?case by simp
next
  case (Cons f freqs)
  from configure_generators_completes [OF assms(1)] obtain w1 where
    1: "exec hw (configure_generators (generators nb) amplitude f) w = Inr ((), w1)" by blast
  from assms(1) obtain w2 where 2: "perform hw (Sleep 1) w1 = Inr w2"
    unfolding never_raises_def by blast
  from measure_analysers_completes [OF assms] obtain r w3 where
    3: "exec hw (measure_analysers nb f (analysers nb) acc) w2 = Inr (r, w3)" by blast
  from Cons [of r w3] 1 2 3 show ?case by (simp add: exec_then_do)
qed

lemma run_spectrum_sweep_completes:
  assumes "never_raises hw" and "number_samples nb \<noteq> 0" and "argsort_contract (np_argsort nb)"
  shows "\<exists>tables w'. exec hw (run_spectrum_sweep nb frequencies amplitude) w = Inr (tables, w')"
proof -
  from sweep_frequencies_completes [OF assms] obtain r w' where
    "exec hw (sweep_frequencies nb amplitude frequencies ([], [])) w = Inr (r, w')" by blast
  then show ?thesis by (simp add: run_spectrum_sweep_def exec_then_do)
qed

subsection \<open>Runs that may stop early\<close>

lemma measure_analysers_centres_prefix:
  "prefix (analyser_centres (calls hw (measure_analysers nb frequency as acc) w))
          (map (\<lambda>a. (a, spec_receive_centre (sample_frequency nb) frequency)) as)"
proof (induction as arbitrary: acc w)
  case Nil
  then show ?case by simp
next
  case (Cons a as)
  obtain F S where acc: "acc = (F, S)" by (cases acc)
  show ?case
    unfolding acc using Cons
    by (auto simp: zone_eq Let_def calls_then_do calls_lift exec_then_do exec_lift
        split: sum.splits prod.splits)
qed

lemma sweep_frequencies_centres_prefix:
  "prefix (analyser_centres (calls hw (sweep_frequencies nb amplitude freqs acc) w))
          (concat (map (\<lambda>f. map (\<lambda>a. (a, spec_receive_centre (sample_frequency nb) f))
                                (analysers nb)) freqs))"
proof (induction freqs arbitrary: acc w)
  case Nil
  then show ?case by simp
next
  case (Cons f freqs)
  let ?cfg = "configure_generators (generators nb) amplitude f"
  let ?E = "map (\<lambda>a. (a, spec_receive_centre (sample_frequency nb) f)) (analysers nb)"
  let ?R = "concat (map (\<lambda>f. map (\<lambda>a. (a, spec_receive_centre (sample_frequency nb) f))
                                (analysers nb)) freqs)"
  show ?case
  proof (cases "exec hw ?cfg w")
    case (Inl e)
    then show ?thesis
      by (simp add: calls_then_do analyser_centres_append configure_generators_quiet)
  next
    case (Inr r)
    then obtain u w1 where 1: "exec hw ?cfg w = Inr (u, w1)" by (cases r) auto
    show ?thesis
    proof (cases "perform hw (Sleep 1) w1")
      case (Inl e)
      with 1 show ?thesis
        by (simp add: calls_then_do analyser_centres_append configure_generators_quiet)
    next
      case (Inr w2)
      note 2 = this
      show ?thesis
      proof (cases "exec hw (measure_analysers nb f (analysers nb) acc) w2")
        case (Inl e)
        with 1 2 measure_analysers_centres_prefix [of hw nb f "analysers nb" acc w2]
        show ?thesis
          by (simp add: calls_then_do analyser_centres_append configure_generators_quiet
              prefix_prefix)
      next
        case (Inr r3)
        then obtain F1 S1 w3 where
          3: "exec hw (measure_analysers nb f (analysers nb) acc) w2 = Inr ((F1, S1), w3)"
          by (cases r3) auto
        obtain F S where acc: "acc = (F, S)" by (cases acc)
        from measure_analysers_done [OF 3 [unfolded acc]] acc
        have m: "analyser_centres (calls hw (measure_analysers nb f (analysers nb) acc) w2) = ?E"
          by auto
        from 1 2 3 m Cons [of "(F1, S1)" w3] show ?thesis
          by (simp add: calls_then_do analyser_centres_append configure_generators_quiet)
      qed
    qed
  qed
qed

subsection \<open>The loopback and the benches\<close>

lemma loopback_spectrum_facts:
  assumes "k \<le> 12287" and "argsort_contract argsort"
  shows "loopback_spectrum a k \<noteq> []"
    and "length (loopback_spectrum a k) = 12288"
    and "np_max (loopback_spectrum a k) = Inr (real a + 90 * 12288 / 12287)"
    and "item0 (last_slice (argsort (loopback_spectrum a k))) = Inr k"
    and "N \<noteq> 0 \<Longrightarrow> calculate_fundamental argsort (loopback_spectrum a k) fs N rf
           = Inr (real k * (fs / real_of_int N) + rf - fs / 2)"
    and "calculate_simple_snr (loopback_spectrum a k) = Inr 90"
proof -
  let ?F = "real a"
  let ?H = "real a + 90 * 12288 / 12287 :: real"
  let ?s = "loopback_spectrum a k"
  have fh: "?F \<le> ?H" by simp
  show ne: "?s \<noteq> []" by (simp add: loopback_spectrum_def)
  show len: "length ?s = 12288" using assms(1) by (simp add: loopback_spectrum_def)
  have mx: "Max (set ?s) = ?H"
    unfolding loopback_spectrum_def by (rule Max_spike [OF fh])
  show "np_max ?s = Inr ?H" using ne mx by (simp add: np_max_def)
  have nth: "?s ! i = (if i = k then ?H else ?F)" if "i < length ?s" for i
    using that by (auto simp: loopback_spectrum_def nth_append nth_Cons split: nat.splits)
  from argsort_last_max [OF assms(2) ne] have "last (argsort ?s) < length ?s"
    and "?s ! last (argsort ?s) = ?H" using mx by simp_all
  then have l: "last (argsort ?s) = k" using nth [of "last (argsort ?s)"]
    by (auto split: if_splits)
  have ne': "argsort ?s \<noteq> []" using ne argsort_length [OF assms(2), of ?s] by auto
  show "item0 (last_slice (argsort ?s)) = Inr k" using item0_last_slice [OF ne'] l by simp
  show "calculate_fundamental argsort ?s fs N rf
          = Inr (real k * (fs / real_of_int N) + rf - fs / 2)"
    if "N \<noteq> 0"
    using calculate_fundamental_last [OF assms(2) that ne, of fs rf] l by simp
  have km: "real (k + (12287 - k)) = 12287" using assms(1) by simp
  have "calculate_simple_snr ?s = Inr (?H - (12287 * ?F + ?H) / 12288)"
    using calculate_simple_snr_spike [OF fh, of k "12287 - k"] assms(1)
    unfolding loopback_spectrum_def km by simp
  then show "calculate_simple_snr ?s = Inr 90" by (simp add: field_simps)
qed

lemmas loopback_stable = loopback_spectrum_facts [OF _ stable_argsort_contract]

lemma step_slice_pairs:
  "step_slice [a0, b0, a1, b1, a2, b2] 0 (Suc (Suc 0)) = [a0, a1, a2]"
  "step_slice [a0, b0, a1, b1, a2, b2] (Suc 0) (Suc (Suc 0)) = [b0, b1, b2]"
proof -
  have u: "[0 ..< 3] = [0, Suc 0, Suc (Suc 0)]" by (simp add: upt_rec)
  have d: "(7::nat) div 2 = 3" "(6::nat) div 2 = 3" by simp_all
  have c: "(length [a0, b0, a1, b1, a2, b2] - 0 + Suc (Suc 0) - 1) div Suc (Suc 0) = 3"
    "(length [a0, b0, a1, b1, a2, b2] - Suc 0 + Suc (Suc 0) - 1) div Suc (Suc 0) = 3"
    using d by (simp_all add: eval_nat_numeral)
  show "step_slice [a0, b0, a1, b1, a2, b2] 0 (Suc (Suc 0)) = [a0, a1, a2]"
    unfolding step_slice_def c u by simp
  show "step_slice [a0, b0, a1, b1, a2, b2] (Suc 0) (Suc (Suc 0)) = [b0, b1, b2]"
    unfolding step_slice_def c u by simp
qed

lemma step_slice_pair:
  "step_slice [a0, b0] 0 (Suc (Suc 0)) = [a0]"
  "step_slice [a0, b0] (Suc 0) (Suc (Suc 0)) = [b0]"
proof -
  have d: "(3::nat) div 2 = 1" "(2::nat) div 2 = 1" by simp_all
  have c: "(length [a0, b0] - 0 + Suc (Suc 0) - 1) div Suc (Suc 0) = 1"
    "(length [a0, b0] - Suc 0 + Suc (Suc 0) - 1) div Suc (Suc 0) = 1"
    using d by (simp_all add: eval_nat_numeral)
  show "step_slice [a0, b0] 0 (Suc (Suc 0)) = [a0]"
    unfolding step_slice_def c by simp
  show "step_slice [a0, b0] (Suc 0) (Suc (Suc 0)) = [b0]"
    unfolding step_slice_def c by simp
qed

lemma loopback_run:
  "exec loopback (run_spectrum_sweep notebook03 [200, 600, 1000] (1 / 2)) 0
     = Inr ([[[200, 600, 1000], [200, 600, 1000], [90, 90, 90]],
             [[200, 600, 1000], [200, 600, 1000], [90, 90, 90]]], 1000)"
  by (simp add: run_spectrum_sweep_def notebook03_def loopback_def exec_then_do exec_lift
      loopback_stable frequency_zones_def result_tables_def step_slice_pairs Let_def)

lemma loopback_never_raises: "never_raises loopback"
  by (auto simp: never_raises_def loopback_def loopback_spectrum_def split: call.splits)

lemma loopback_spectra:
  "spectra_read (calls loopback (run_spectrum_sweep notebook03 [200, 600, 1000] (1 / 2)) 0)
     = [(2, loopback_spectrum 2 1000), (3, loopback_spectrum 3 1000),
        (2, loopback_spectrum 2 3000), (3, loopback_spectrum 3 3000),
        (2, loopback_spectrum 2 5000), (3, loopback_spectrum 3 5000)]"
  by (simp add: run_spectrum_sweep_def notebook03_def loopback_def exec_then_do exec_lift
      calls_then_do calls_lift
      loopback_stable frequency_zones_def Let_def)

lemma loopback_measurement:
  assumes "k \<le> 12287" and "rf = 12288 / 10"
  shows "measurement stable_argsort 2457600000 12288 rf (loopback_spectrum a k)
           = Inr (real k / 5, 90)"
  unfolding assms(2)
  using loopback_stable(5) [OF assms(1), of 12288 a 2457600000 "12288 / 10 * 1000000"]
    loopback_stable(6) [OF assms(1), of a]
  by (simp add: measurement_def)

lemma bench_measures:
  "np_max [1, 3, 2] = Inr 3"
  "item0 (last_slice (stable_argsort [1, 3, 2])) = Inr 1"
  "calculate_fundamental stable_argsort [1, 3, 2] 2457600000 4 rf
     = Inr (614400000 + rf - 1228800000)"
  "calculate_simple_snr [1, 3, 2] = Inr 1"
  "np_max [1, 1, 4, 1] = Inr 4"
  "item0 (last_slice (stable_argsort [1, 1, 4, 1])) = Inr 2"
  "calculate_fundamental stable_argsort [1, 1, 4, 1] 2457600000 4 rf
     = Inr (1228800000 + rf - 1228800000)"
  "calculate_simple_snr [1, 1, 4, 1] = Inr (9 / 4)"
  by (simp_all add: np_max_def item0_def last_slice_def stable_argsort_def
      calculate_fundamental_def calculate_simple_snr_def np_average_def)

lemma bench_raises:
  "raises_after (bench_hardware 1) (run_spectrum_sweep bench [200, 600] (1 / 2)) 0 14 (External 7)"
  by (simp add: run_spectrum_sweep_def bench_def bench_hardware_def raises_after_simps
      bench_measures frequency_zones_def lift_def Let_def eval_nat_numeral)

lemma bench_run:
  "exec (bench_hardware 5) (run_spectrum_sweep bench [200, 2600] (1 / 2)) 0
     = Inr ([[[200, 2600], [6144 / 10, 30720 / 10], [1, 1]]], 2)"
  by (simp add: run_spectrum_sweep_def bench_def bench_hardware_def exec_then_do exec_lift
      bench_measures frequency_zones_def result_tables_def step_slice_def Let_def)

lemma bench2_run:
  "exec (bench_hardware 5) (run_spectrum_sweep bench2 [200] (1 / 2)) 0
     = Inr ([[[200], [6144 / 10], [1]], [[200], [12288 / 10], [9 / 4]]], 2)"
  by (simp add: run_spectrum_sweep_def bench2_def bench_hardware_def exec_then_do exec_lift
      bench_measures frequency_zones_def result_tables_def step_slice_pair Let_def)

lemma bench2_spectra:
  "spectra_read (calls (bench_hardware 5) (run_spectrum_sweep bench2 [200] (1 / 2)) 0)
     = [(0, [1, 3, 2]), (1, [1, 1, 4, 1])]"
  by (simp add: run_spectrum_sweep_def bench2_def bench_hardware_def exec_then_do exec_lift
      calls_then_do calls_lift bench_measures frequency_zones_def Let_def)

lemma bench2_measurement:
  "measurement stable_argsort 2457600000 4 (12288 / 10) [1, 3, 2] = Inr (6144 / 10, 1)"
  "measurement stable_argsort 2457600000 4 (12288 / 10) [1, 1, 4, 1] = Inr (12288 / 10, 9 / 4)"
  by (simp_all add: measurement_def bench_measures)

subsection \<open>The sweep\<close>

text \<open>
  Claim C5. In every run of the sweep the centre frequencies written to the analysers
  are, in order, an initial part of this list: for every frequency \<open>f\<close> of the input
  list, in order, and for every analyser, in order, the low zone constant 1228.8 when
  \<open>f * 1e6\<close> is below the sample frequency and the high zone constant 3686.4 otherwise,
  the same value for every analyser at that frequency. In a run that completes they are
  the whole list.
\<close>

theorem receive_centre_selection:
  "prefix (analyser_centres (calls hw (run_spectrum_sweep nb frequencies amplitude) w))
          (concat (map (\<lambda>f. map (\<lambda>a. (a, if f * 1000000 < sample_frequency nb
                                               then 12288 / 10 else 36864 / 10))
                                (analysers nb)) frequencies))
   \<and> (exec hw (run_spectrum_sweep nb frequencies amplitude) w = Inr r \<longrightarrow>
        analyser_centres (calls hw (run_spectrum_sweep nb frequencies amplitude) w)
           = concat (map (\<lambda>f. map (\<lambda>a. (a, if f * 1000000 < sample_frequency nb
                                               then 12288 / 10 else 36864 / 10))
                                 (analysers nb)) frequencies))"
proof -
  let ?sw = "sweep_frequencies nb amplitude frequencies ([], [])"
  have "analyser_centres (calls hw (run_spectrum_sweep nb frequencies amplitude) w)
          = analyser_centres (calls hw ?sw w)"
    by (simp add: run_spectrum_sweep_def calls_then_do analyser_centres_append
        split: sum.splits prod.splits)
  then have p: "prefix (analyser_centres (calls hw (run_spectrum_sweep nb frequencies amplitude) w))
          (concat (map (\<lambda>f. map (\<lambda>a. (a, spec_receive_centre (sample_frequency nb) f))
                                (analysers nb)) frequencies))"
    using sweep_frequencies_centres_prefix [of hw nb amplitude frequencies "([], [])" w] by simp
  have q: "analyser_centres (calls hw (run_spectrum_sweep nb frequencies amplitude) w)
           = concat (map (\<lambda>f. map (\<lambda>a. (a, spec_receive_centre (sample_frequency nb) f))
                                 (analysers nb)) frequencies)"
    if "exec hw (run_spectrum_sweep nb frequencies amplitude) w = Inr r"
  proof -
    obtain tables w' where "r = (tables, w')" by (cases r)
    with that run_spectrum_sweep_done [of hw nb frequencies amplitude w tables w']
    show ?thesis by auto
  qed
  show ?thesis using p q unfolding spec_receive_centre_def by blast
qed

theorem receive_centre_selection_witness:
  "exec (bench_hardware 5) (run_spectrum_sweep bench [200, 2600] (1 / 2)) 0
     = Inr ([[[200, 2600], [6144 / 10, 30720 / 10], [1, 1]]], 2)
   \<and> analyser_centres (calls (bench_hardware 5) (run_spectrum_sweep bench [200, 2600] (1 / 2)) 0)
       = [(0, 12288 / 10), (0, 36864 / 10)]"
  using bench_run receive_centre_selection [of "bench_hardware 5" bench "[200, 2600]" "1 / 2" 0
      "([[[200, 2600], [6144 / 10, 30720 / 10], [1, 1]]], 2)"]
  by (simp add: bench_def)

text \<open>
  Claim C6. On hardware that does not raise, with a sample count that is not zero and a
  sort that meets its contract, the sweep returns. Whenever it returns, there is one
  table for each analyser. Every spectrum of the run is read from the analyser that was
  just updated, and the read number \<open>j * n + i\<close> (for \<open>n\<close> analysers) is made on the
  \<open>i\<close>-th analyser of the list. The table of that analyser, the \<open>i\<close>-th table, has three
  rows: the input frequencies, and the fundamental and the signal-to-noise estimate whose
  column \<open>j\<close> is measured on that read, with the receive centre of the \<open>j\<close>-th frequency.
  In particular, when every such measurement gives the commanded frequency and 90, every
  table is the three rows: the frequencies, the frequencies again, and 90 in every column.
\<close>

theorem run_spectrum_sweep_tables:
  "(never_raises hw \<and> number_samples nb \<noteq> 0 \<and> argsort_contract (np_argsort nb) \<longrightarrow>
      (\<exists>tables w'. exec hw (run_spectrum_sweep nb frequencies amplitude) w = Inr (tables, w')))
   \<and> (exec hw (run_spectrum_sweep nb frequencies amplitude) w = Inr (tables, w') \<longrightarrow>
       length tables = length (analysers nb)
     \<and> length (spectra_read (calls hw (run_spectrum_sweep nb frequencies amplitude) w))
         = length frequencies * length (analysers nb)
     \<and> captures (calls hw (run_spectrum_sweep nb frequencies amplitude) w)
         = concat (map (\<lambda>(a, s). [Called (UpdateSpectrum a), Got a s])
             (spectra_read (calls hw (run_spectrum_sweep nb frequencies amplitude) w)))
     \<and> (\<forall>i < length (analysers nb).
           length (tables ! i) = 3
         \<and> tables ! i ! 0 = frequencies
         \<and> length (tables ! i ! 1) = length frequencies
         \<and> length (tables ! i ! 2) = length frequencies
         \<and> (\<forall>j < length frequencies.
               fst (spectra_read (calls hw (run_spectrum_sweep nb frequencies amplitude) w)
                      ! (j * length (analysers nb) + i)) = analysers nb ! i
             \<and> measurement (np_argsort nb) (sample_frequency nb) (number_samples nb)
                 (spec_receive_centre (sample_frequency nb) (frequencies ! j))
                 (snd (spectra_read (calls hw (run_spectrum_sweep nb frequencies amplitude) w)
                    ! (j * length (analysers nb) + i)))
               = Inr (tables ! i ! 1 ! j, tables ! i ! 2 ! j)))
     \<and> ((\<forall>i < length (analysers nb). \<forall>j < length frequencies.
            measurement (np_argsort nb) (sample_frequency nb) (number_samples nb)
              (spec_receive_centre (sample_frequency nb) (frequencies ! j))
              (snd (spectra_read (calls hw (run_spectrum_sweep nb frequencies amplitude) w)
                 ! (j * length (analysers nb) + i)))
            = Inr (frequencies ! j, 90))
          \<longrightarrow> tables = replicate (length (analysers nb))
                          [frequencies, frequencies, replicate (length frequencies) 90]))"
  (is "?completes \<and> (?ran \<longrightarrow> ?shape)")
proof (rule conjI)
  show ?completes
    using run_spectrum_sweep_completes [of hw nb frequencies amplitude w] by blast
next
  show "?ran \<longrightarrow> ?shape"
  proof (rule impI)
    let ?n = "length (analysers nb)" and ?m = "length frequencies"
    let ?ss = "spectra_read (calls hw (run_spectrum_sweep nb frequencies amplitude) w)"
    assume ran: ?ran
    from run_spectrum_sweep_done [OF ran] obtain Fs Ss where
      t: "tables = result_tables nb frequencies (Fs, Ss)" and
      cp: "captures (calls hw (run_spectrum_sweep nb frequencies amplitude) w)
             = concat (map (\<lambda>(a, s). [Called (UpdateSpectrum a), Got a s]) ?ss)" and
      ls: "length ?ss = ?m * ?n" and lF: "length Fs = ?m * ?n" and lS: "length Ss = ?m * ?n" and
      ms: "\<And>j i. j < ?m \<Longrightarrow> i < ?n \<Longrightarrow>
             fst (?ss ! (j * ?n + i)) = analysers nb ! i
           \<and> measured nb (frequencies ! j) (snd (?ss ! (j * ?n + i)))
               (Fs ! (j * ?n + i)) (Ss ! (j * ?n + i))"
      by blast
    have len: "length tables = ?n" by (simp add: t result_tables_def)
    have row: "tables ! i = [frequencies, step_slice Fs i ?n, step_slice Ss i ?n]"
      if "i < ?n" for i
      using that by (simp add: t result_tables_def)
    have shape: "length (tables ! i) = 3 \<and> tables ! i ! 0 = frequencies
           \<and> length (tables ! i ! 1) = ?m \<and> length (tables ! i ! 2) = ?m
           \<and> (\<forall>j < ?m.
                 fst (?ss ! (j * ?n + i)) = analysers nb ! i
               \<and> measurement (np_argsort nb) (sample_frequency nb) (number_samples nb)
                   (spec_receive_centre (sample_frequency nb) (frequencies ! j))
                   (snd (?ss ! (j * ?n + i)))
                 = Inr (tables ! i ! 1 ! j, tables ! i ! 2 ! j))" if i: "i < ?n" for i
    proof -
      have "\<forall>j < ?m.
                 fst (?ss ! (j * ?n + i)) = analysers nb ! i
               \<and> measurement (np_argsort nb) (sample_frequency nb) (number_samples nb)
                   (spec_receive_centre (sample_frequency nb) (frequencies ! j))
                   (snd (?ss ! (j * ?n + i)))
                 = Inr (step_slice Fs i ?n ! j, step_slice Ss i ?n ! j)"
        using ms i step_slice_rows(2) [OF lF i] step_slice_rows(2) [OF lS i]
        by (simp add: measured_def)
      then show ?thesis
        unfolding row [OF i]
        using step_slice_rows(1) [OF lF i] step_slice_rows(1) [OF lS i] by simp
    qed
    have scen: "tables = replicate ?n [frequencies, frequencies, replicate ?m 90]"
      if h: "\<forall>i < ?n. \<forall>j < ?m.
              measurement (np_argsort nb) (sample_frequency nb) (number_samples nb)
                (spec_receive_centre (sample_frequency nb) (frequencies ! j))
                (snd (?ss ! (j * ?n + i)))
              = Inr (frequencies ! j, 90)"
    proof (rule nth_equalityI)
      show "length tables = length (replicate ?n [frequencies, frequencies, replicate ?m 90])"
        using len by simp
    next
      fix i assume "i < length tables"
      then have i: "i < ?n" using len by simp
      have a: "step_slice Fs i ?n = frequencies"
      proof (rule nth_equalityI)
        show "length (step_slice Fs i ?n) = length frequencies"
          using step_slice_rows(1) [OF lF i] .
      next
        fix j assume "j < length (step_slice Fs i ?n)"
        then have j: "j < ?m" using step_slice_rows(1) [OF lF i] by simp
        from ms [OF j i] h i j have "Fs ! (j * ?n + i) = frequencies ! j"
          by (simp add: measured_def)
        then show "step_slice Fs i ?n ! j = frequencies ! j"
          using step_slice_rows(2) [OF lF i j] by simp
      qed
      have b: "step_slice Ss i ?n = replicate ?m 90"
      proof (rule nth_equalityI)
        show "length (step_slice Ss i ?n) = length (replicate ?m (90::real))"
          using step_slice_rows(1) [OF lS i] by simp
      next
        fix j assume "j < length (step_slice Ss i ?n)"
        then have j: "j < ?m" using step_slice_rows(1) [OF lS i] by simp
        from ms [OF j i] h i j have "Ss ! (j * ?n + i) = 90"
          by (simp add: measured_def)
        then show "step_slice Ss i ?n ! j = replicate ?m 90 ! j"
          using step_slice_rows(2) [OF lS i j] j by simp
      qed
      show "tables ! i = replicate ?n [frequencies, frequencies, replicate ?m 90] ! i"
        using row [OF i] a b i by simp
    qed
    show ?shape using len ls cp shape scen by blast
  qed
qed

theorem run_spectrum_sweep_tables_witness:
  "never_raises loopback \<and> number_samples notebook03 \<noteq> 0
   \<and> argsort_contract (np_argsort notebook03)
   \<and> exec loopback (run_spectrum_sweep notebook03 [200, 600, 1000] (1 / 2)) 0
       = Inr (replicate (length (analysers notebook03))
                [[200, 600, 1000], [200, 600, 1000], replicate (length [200, 600, 1000 :: real]) 90],
              1000)
   \<and> spectra_read (calls loopback (run_spectrum_sweep notebook03 [200, 600, 1000] (1 / 2)) 0)
       = [(2, loopback_spectrum 2 1000), (3, loopback_spectrum 3 1000),
          (2, loopback_spectrum 2 3000), (3, loopback_spectrum 3 3000),
          (2, loopback_spectrum 2 5000), (3, loopback_spectrum 3 5000)]
   \<and> measurement (np_argsort notebook03) (sample_frequency notebook03) (number_samples notebook03)
         (spec_receive_centre (sample_frequency notebook03) 200) (loopback_spectrum 2 1000)
       = Inr (200, 90)
   \<and> measurement (np_argsort notebook03) (sample_frequency notebook03) (number_samples notebook03)
         (spec_receive_centre (sample_frequency notebook03) 600) (loopback_spectrum 3 3000)
       = Inr (600, 90)
   \<and> measurement (np_argsort notebook03) (sample_frequency notebook03) (number_samples notebook03)
         (spec_receive_centre (sample_frequency notebook03) 1000) (loopback_spectrum 2 5000)
       = Inr (1000, 90)
   \<and> exec (bench_hardware 5) (run_spectrum_sweep bench2 [200] (1 / 2)) 0
       = Inr ([[[200], [6144 / 10], [1]], [[200], [12288 / 10], [9 / 4]]], 2)
   \<and> spectra_read (calls (bench_hardware 5) (run_spectrum_sweep bench2 [200] (1 / 2)) 0)
       = [(analysers bench2 ! 0, [1, 3, 2]), (analysers bench2 ! 1, [1, 1, 4, 1])]
   \<and> measurement (np_argsort bench2) (sample_frequency bench2) (number_samples bench2)
         (spec_receive_centre (sample_frequency bench2) 200) [1, 3, 2]
       = Inr (6144 / 10, 1)
   \<and> measurement (np_argsort bench2) (sample_frequency bench2) (number_samples bench2)
         (spec_receive_centre (sample_frequency bench2) 200) [1, 1, 4, 1]
       = Inr (12288 / 10, 9 / 4)"
proof -
  let ?T = "[[[200, 600, 1000], [200, 600, 1000], [90, 90, 90]],
             [[200, 600, 1000], [200, 600, 1000], [90, 90, 90 :: real]]]"
  have a1: "never_raises loopback" by (rule loopback_never_raises)
  have a2: "number_samples notebook03 \<noteq> 0" by (simp add: notebook03_def)
  have a3: "argsort_contract (np_argsort notebook03)"
    using stable_argsort_contract by (simp add: notebook03_def)
  have m1: "measurement (np_argsort notebook03) (sample_frequency notebook03)
         (number_samples notebook03)
         (spec_receive_centre (sample_frequency notebook03) 200) (loopback_spectrum 2 1000)
       = Inr (200, 90)"
    by (simp add: notebook03_def spec_receive_centre_def loopback_measurement)
  have m2: "measurement (np_argsort notebook03) (sample_frequency notebook03)
         (number_samples notebook03)
         (spec_receive_centre (sample_frequency notebook03) 600) (loopback_spectrum 3 3000)
       = Inr (600, 90)"
    by (simp add: notebook03_def spec_receive_centre_def loopback_measurement)
  have m3: "measurement (np_argsort notebook03) (sample_frequency notebook03)
         (number_samples notebook03)
         (spec_receive_centre (sample_frequency notebook03) 1000) (loopback_spectrum 2 5000)
       = Inr (1000, 90)"
    by (simp add: notebook03_def spec_receive_centre_def loopback_measurement)
  have h: "\<forall>i < length (analysers notebook03). \<forall>j < length [200, 600, 1000 :: real].
         measurement (np_argsort notebook03) (sample_frequency notebook03)
           (number_samples notebook03)
           (spec_receive_centre (sample_frequency notebook03) ([200, 600, 1000] ! j))
           (snd (spectra_read
                   (calls loopback (run_spectrum_sweep notebook03 [200, 600, 1000] (1 / 2)) 0)
              ! (j * length (analysers notebook03) + i)))
         = Inr ([200, 600, 1000] ! j, 90)"
    unfolding loopback_spectra
    by (auto simp: notebook03_def spec_receive_centre_def loopback_measurement less_Suc_eq)
  from run_spectrum_sweep_tables [of loopback notebook03 "[200, 600, 1000]" "1 / 2" 0 ?T 1000]
    loopback_run h
  have T: "?T = replicate (length (analysers notebook03))
                [[200, 600, 1000], [200, 600, 1000], replicate (length [200, 600, 1000 :: real]) 90]"
    by blast
  have run: "exec loopback (run_spectrum_sweep notebook03 [200, 600, 1000] (1 / 2)) 0
       = Inr (replicate (length (analysers notebook03))
                [[200, 600, 1000], [200, 600, 1000], replicate (length [200, 600, 1000 :: real]) 90],
              1000)"
    using loopback_run unfolding T .
  have b1: "measurement (np_argsort bench2) (sample_frequency bench2) (number_samples bench2)
         (spec_receive_centre (sample_frequency bench2) 200) [1, 3, 2]
       = Inr (6144 / 10, 1)"
    using bench2_measurement(1) by (simp add: bench2_def spec_receive_centre_def)
  have b2: "measurement (np_argsort bench2) (sample_frequency bench2) (number_samples bench2)
         (spec_receive_centre (sample_frequency bench2) 200) [1, 1, 4, 1]
       = Inr (12288 / 10, 9 / 4)"
    using bench2_measurement(2) by (simp add: bench2_def spec_receive_centre_def)
  have bs: "spectra_read (calls (bench_hardware 5) (run_spectrum_sweep bench2 [200] (1 / 2)) 0)
       = [(analysers bench2 ! 0, [1, 3, 2]), (analysers bench2 ! 1, [1, 1, 4, 1])]"
    using bench2_spectra by (simp add: bench2_def)
  show ?thesis
    by (intro conjI) (fact a1 a2 a3 run loopback_spectra m1 m2 m3 bench2_run bs b1 b2)+
qed

text \<open>
  Claim C9. When a collaborator call raises \<open>e\<close> during the sweep, after \<open>n\<close> calls that
  did not raise, the sweep ends with \<open>e\<close> itself and with no table, and the call that
  raised is the last of the \<open>n + 1\<close> calls of the run: nothing is attempted again.
\<close>

theorem sweep_failure_is_fatal:
  assumes "raises_after hw (run_spectrum_sweep nb frequencies amplitude) w n e"
  shows "exec hw (run_spectrum_sweep nb frequencies amplitude) w = Inl e
         \<and> length (calls hw (run_spectrum_sweep nb frequencies amplitude) w) = Suc n"
  using assms by (rule raises_after_exec)

theorem sweep_failure_is_fatal_witness:
  "raises_after (bench_hardware 1) (run_spectrum_sweep bench [200, 600] (1 / 2)) 0 14 (External 7)
   \<and> exec (bench_hardware 1) (run_spectrum_sweep bench [200, 600] (1 / 2)) 0 = Inl (External 7)
   \<and> length (calls (bench_hardware 1) (run_spectrum_sweep bench [200, 600] (1 / 2)) 0) = Suc 14"
  using bench_raises sweep_failure_is_fatal [OF bench_raises] by simp

end
